theory Spec2Isabelle
  imports Main "HOL-Library.Word"
begin

section \<open>Data model of the plan applier (nomad/plan_apply.go)\<close>

text \<open>
  The file \<^verbatim>\<open>nomad/plan_apply.go\<close> holds three methods of the leader server:
  \<^verbatim>\<open>planApply\<close> (the applier loop), \<^verbatim>\<open>evaluatePlan\<close> (the plan evaluator) and
  \<^verbatim>\<open>applyPlan\<close> (the submission to Raft). The types of package \<^verbatim>\<open>structs\<close>, the state
  store, the fit predicate and the Raft layer are outside the file; they are modelled
  by what the three methods read from them.
\<close>

type_synonym uint64 = "64 word"

text \<open>
  A Go \<^verbatim>\<open>error\<close>. \<open>Failure\<close> is an error handed over by a collaborator (state store,
  Raft); the other constructors are the three \<^verbatim>\<open>fmt.Errorf\<close> wrappers of
  \<^verbatim>\<open>evaluatePlan\<close>. The text of the messages is not modelled.
\<close>

datatype error =
    Failure string
  | FailedToSnapshotState error
  | FailedToGetNode error
  | FailedToGetExistingAllocations error

text \<open>An allocation is opaque to the file except for its \<^verbatim>\<open>ID\<close>.\<close>

record Allocation =
  ID :: string

text \<open>
  \<^verbatim>\<open>structs.Plan\<close>: the two maps and the flag that \<^verbatim>\<open>evaluatePlan\<close> reads. A Go map is a
  partial function; a missing key is \<open>None\<close>.
\<close>

record Plan =
  AllAtOnce :: bool
  NodeEvict :: "string \<rightharpoonup> string list"
  NodeAllocation :: "string \<rightharpoonup> Allocation list"

text \<open>\<^verbatim>\<open>structs.PlanResult\<close>, with the fields the file writes.\<close>

record PlanResult =
  NodeEvict :: "string \<rightharpoonup> string list"
  NodeAllocation :: "string \<rightharpoonup> Allocation list"
  RefreshIndex :: uint64
  AllocIndex :: uint64

text \<open>\<^verbatim>\<open>structs.AllocUpdateRequest\<close>, the flat payload sent through Raft.\<close>

record AllocUpdateRequest =
  Evict :: "string list"
  Alloc :: "Allocation list"

text \<open>
  The state snapshot, by its three reads. Each returns a value or an error, as the Go
  pair \<^verbatim>\<open>(value, err)\<close> whose value is used only when \<^verbatim>\<open>err == nil\<close>. The node type is
  a parameter: the file only passes the node on to \<^verbatim>\<open>AllocationsFit\<close>.
\<close>

record 'node StateSnapshot =
  GetNodeByID :: "string \<Rightarrow> error + 'node"
  AllocsByNode :: "string \<Rightarrow> error + Allocation list"
  GetIndex :: "string \<Rightarrow> error + uint64"

text \<open>
  The server, by what the three methods call on it, over a replicated state \<open>'st\<close>:
  \<open>Snapshot\<close> is \<^verbatim>\<open>s.fsm.State().Snapshot()\<close> at the current state, \<open>raftApply\<close> commits a
  request and returns the new state, the log index and the error. \<open>AllocationsFit\<close> is
  the package-level fit predicate, which is not in the file and is taken as a parameter.
\<close>

record ('node, 'st) Server =
  Snapshot :: "'st \<Rightarrow> error + 'node StateSnapshot"
  raftApply :: "'st \<Rightarrow> AllocUpdateRequest \<Rightarrow> 'st \<times> uint64 \<times> error option"
  AllocationsFit :: "'node \<Rightarrow> Allocation list \<Rightarrow> bool"

section \<open>Helpers outside the file\<close>

text \<open>
  Modelled from the spec: \<^verbatim>\<open>structs.RemoveAllocs\<close> is called by \<^verbatim>\<open>evaluatePlan\<close> and is
  not in the file. The spec says of it: "remove all allocations whose IDs appear in" the
  eviction list.
\<close>

definition RemoveAllocs :: "Allocation list \<Rightarrow> string list \<Rightarrow> Allocation list" where
  "RemoveAllocs alloc remove = filter (\<lambda>a. ID a \<notin> set remove) alloc"

text \<open>
  Modelled from the spec: \<^verbatim>\<open>maxUint64\<close> is called by \<^verbatim>\<open>evaluatePlan\<close> and is not in the
  file. The spec writes it \<open>max\<close>, over unsigned 64-bit indices.
\<close>

definition maxUint64 :: "uint64 \<Rightarrow> uint64 \<Rightarrow> uint64" where
  "maxUint64 a b = (if a \<ge> b then a else b)"

section \<open>Go maps: indexing and iteration\<close>

text \<open>Indexing a map of slices at a missing key gives the nil slice, of length 0.\<close>

definition index_map :: "('k \<rightharpoonup> 'v list) \<Rightarrow> 'k \<Rightarrow> 'v list" where
  "index_map m k = (case m k of None \<Rightarrow> [] | Some v \<Rightarrow> v)"

text \<open>
  \<^verbatim>\<open>for k, v := range m\<close> visits every entry of \<open>m\<close> once, in an order the runtime
  chooses. The order is a parameter of the model: \<open>range_map m ks\<close> is the sequence of
  entries visited when the keys come in the order \<open>ks\<close>, and \<open>range_order m ks\<close> says
  that \<open>ks\<close> is an order the runtime can choose for \<open>m\<close>.
\<close>

fun range_map :: "('k \<rightharpoonup> 'v) \<Rightarrow> 'k list \<Rightarrow> ('k \<times> 'v) list" where
  "range_map m [] = []"
| "range_map m (k # ks) =
     (case m k of None \<Rightarrow> range_map m ks | Some v \<Rightarrow> (k, v) # range_map m ks)"

definition range_order :: "('k \<rightharpoonup> 'v) \<Rightarrow> 'k list \<Rightarrow> bool" where
  "range_order m ks = (distinct ks \<and> set ks = dom m)"

section \<open>evaluatePlan\<close>

text \<open>
  The outcome of one pass through the body of the loop over \<^verbatim>\<open>plan.NodeAllocation\<close>:
  the loop goes on with the result holder (end of the body or \<^verbatim>\<open>continue\<close>), or the
  function returns the Go pair \<^verbatim>\<open>(*PlanResult, error)\<close>, where \<open>None\<close> is \<^verbatim>\<open>nil\<close>.
\<close>

datatype loop_step =
    Continue PlanResult
  | Return "PlanResult option \<times> error option"

text \<open>Lines 79 to 84: the allocations proposed for a node.\<close>

definition proposed_allocs ::
  "Allocation list \<Rightarrow> string list \<Rightarrow> Allocation list \<Rightarrow> Allocation list" where
  "proposed_allocs existingAlloc evictions allocList =
     (let proposed = existingAlloc;
          proposed = (if length evictions > 0 then RemoveAllocs existingAlloc evictions
                      else proposed)
      in proposed @ allocList)"

text \<open>Lines 110 to 116: a node that fits is added to the result.\<close>

definition add_to_result ::
  "string \<Rightarrow> string list \<Rightarrow> Allocation list \<Rightarrow> PlanResult \<Rightarrow> PlanResult" where
  "add_to_result nodeID evictions allocList result =
     (let result = (if length evictions > 0
                    then result\<lparr>PlanResult.NodeEvict :=
                           (PlanResult.NodeEvict result)(nodeID \<mapsto> evictions)\<rparr>
                    else result);
          result = (if length allocList > 0
                    then result\<lparr>PlanResult.NodeAllocation :=
                           (PlanResult.NodeAllocation result)(nodeID \<mapsto> allocList)\<rparr>
                    else result)
      in result)"

text \<open>Lines 65 to 116: the body of the loop, for the entry \<open>(nodeID, allocList)\<close>.\<close>

definition evaluateNode ::
  "('node \<Rightarrow> Allocation list \<Rightarrow> bool) \<Rightarrow> 'node StateSnapshot \<Rightarrow> Plan \<Rightarrow>
   string \<times> Allocation list \<Rightarrow> PlanResult \<Rightarrow> loop_step" where
  "evaluateNode fit snap plan entry result =
     (case entry of (nodeID, allocList) \<Rightarrow>
       (case GetNodeByID snap nodeID of
          Inl err \<Rightarrow> Return (None, Some (FailedToGetNode err))
        | Inr node \<Rightarrow>
           (case AllocsByNode snap nodeID of
              Inl err \<Rightarrow> Return (None, Some (FailedToGetExistingAllocations err))
            | Inr existingAlloc \<Rightarrow>
               (let evictions = index_map (Plan.NodeEvict plan) nodeID;
                    proposed = proposed_allocs existingAlloc evictions allocList
                in if \<not> fit node proposed then
                     (case GetIndex snap ''allocs'' of
                        Inl err \<Rightarrow> Return (None, Some err)
                      | Inr allocIndex \<Rightarrow>
                         (case GetIndex snap ''node'' of
                            Inl err \<Rightarrow> Return (None, Some err)
                          | Inr nodeIndex \<Rightarrow>
                             (let result = result\<lparr>RefreshIndex :=
                                             maxUint64 nodeIndex allocIndex\<rparr>
                              in if AllAtOnce plan then Return (Some result, None)
                                 else Continue result)))
                   else Continue (add_to_result nodeID evictions allocList result)))))"

text \<open>Lines 64 and 118: the loop over the entries, and the return after it.\<close>

fun evaluateNodes ::
  "('node \<Rightarrow> Allocation list \<Rightarrow> bool) \<Rightarrow> 'node StateSnapshot \<Rightarrow> Plan \<Rightarrow>
   (string \<times> Allocation list) list \<Rightarrow> PlanResult \<Rightarrow> PlanResult option \<times> error option" where
  "evaluateNodes fit snap plan [] result = (Some result, None)"
| "evaluateNodes fit snap plan (entry # rest) result =
     (case evaluateNode fit snap plan entry result of
        Return r \<Rightarrow> r
      | Continue result' \<Rightarrow> evaluateNodes fit snap plan rest result')"

text \<open>Lines 58 to 61: the result holder, two empty maps and zero indices.\<close>

definition new_result :: PlanResult where
  "new_result = \<lparr>PlanResult.NodeEvict = Map.empty, PlanResult.NodeAllocation = Map.empty,
                 RefreshIndex = 0, AllocIndex = 0\<rparr>"

text \<open>
  \<^verbatim>\<open>evaluatePlan\<close> at the replicated state \<open>st\<close>, the keys of \<^verbatim>\<open>plan.NodeAllocation\<close>
  being visited in the order \<open>order\<close>. The metrics call is not modelled.
\<close>

definition evaluatePlan ::
  "('node, 'st) Server \<Rightarrow> 'st \<Rightarrow> Plan \<Rightarrow> string list \<Rightarrow> PlanResult option \<times> error option" where
  "evaluatePlan s st plan order =
     (case Snapshot s st of
        Inl err \<Rightarrow> (None, Some (FailedToSnapshotState err))
      | Inr snap \<Rightarrow>
          evaluateNodes (AllocationsFit s) snap plan
            (range_map (Plan.NodeAllocation plan) order) new_result)"

section \<open>applyPlan and planApply\<close>

text \<open>
  A pending plan, as dequeued from the plan queue. Its reply channel is modelled by the
  event that \<^verbatim>\<open>respond\<close> leaves in the trace.
\<close>

record pendingPlan =
  plan :: Plan

text \<open>
  What the applier does to the outside: a call of \<^verbatim>\<open>pending.respond(result, err)\<close> and
  a call of \<^verbatim>\<open>s.raftApply\<close> with its request, and the index and error it returned.
  Logging and metrics are not modelled.
\<close>

datatype event =
    Respond pendingPlan "PlanResult option" "error option"
  | RaftApply AllocUpdateRequest uint64 "error option"

text \<open>The replicated state together with the trace of events so far.\<close>

record 'st World =
  state :: 'st
  events :: "event list"

definition respond ::
  "pendingPlan \<Rightarrow> PlanResult option \<Rightarrow> error option \<Rightarrow> 'st World \<Rightarrow> 'st World" where
  "respond pending result err w = w\<lparr>events := events w @ [Respond pending result err]\<rparr>"

text \<open>
  The orders in which the three \<^verbatim>\<open>range\<close> loops of one pass of the applier visit their
  maps: \<^verbatim>\<open>plan.NodeAllocation\<close> in \<^verbatim>\<open>evaluatePlan\<close>, \<^verbatim>\<open>result.NodeEvict\<close> and
  \<^verbatim>\<open>result.NodeAllocation\<close> in \<^verbatim>\<open>applyPlan\<close>.
\<close>

record RangeOrders =
  planOrder :: "string list"
  evictOrder :: "string list"
  allocOrder :: "string list"

text \<open>
  \<^verbatim>\<open>applyPlan\<close>: the request concatenates the eviction lists and the allocation lists,
  and goes to \<^verbatim>\<open>raftApply\<close>; the index and the error come back as they are.
\<close>

definition applyPlan ::
  "('node, 'st) Server \<Rightarrow> PlanResult \<Rightarrow> RangeOrders \<Rightarrow> 'st World \<Rightarrow>
   (uint64 \<times> error option) \<times> 'st World" where
  "applyPlan s result ord w =
     (let req = \<lparr>Evict = [], Alloc = []\<rparr>;
          req = fold (\<lambda>(nodeID, evictList) req. req\<lparr>Evict := Evict req @ evictList\<rparr>)
                  (range_map (PlanResult.NodeEvict result) (evictOrder ord)) req;
          req = fold (\<lambda>(nodeID, allocList) req. req\<lparr>Alloc := Alloc req @ allocList\<rparr>)
                  (range_map (PlanResult.NodeAllocation result) (allocOrder ord)) req
      in case raftApply s (state w) req of
           (st', index, err) \<Rightarrow>
             ((index, err), \<lparr>state = st', events = events w @ [RaftApply req index err]\<rparr>))"

text \<open>
  Lines 22 to 42: one pass of the loop of \<^verbatim>\<open>planApply\<close> for a dequeued plan. \<open>None\<close> is
  the panic of reading \<^verbatim>\<open>result.NodeEvict\<close> through a nil \<^verbatim>\<open>result\<close>, which Go raises
  when \<^verbatim>\<open>evaluatePlan\<close> returns \<^verbatim>\<open>(nil, nil)\<close>. \<^verbatim>\<open>len(m) != 0\<close> is \<open>m \<noteq> Map.empty\<close>.
\<close>

definition planApplyOnce ::
  "('node, 'st) Server \<Rightarrow> pendingPlan \<Rightarrow> RangeOrders \<Rightarrow> 'st World \<Rightarrow> 'st World option" where
  "planApplyOnce s pending ord w =
     (case evaluatePlan s (state w) (plan pending) (planOrder ord) of
        (result, Some err) \<Rightarrow> Some (respond pending None (Some err) w)
      | (None, None) \<Rightarrow> None
      | (Some result, None) \<Rightarrow>
          if PlanResult.NodeEvict result \<noteq> Map.empty
             \<or> PlanResult.NodeAllocation result \<noteq> Map.empty
          then
            (case applyPlan s result ord w of
               ((allocIndex, Some err), w') \<Rightarrow> Some (respond pending None (Some err) w')
             | ((allocIndex, None), w') \<Rightarrow>
                 Some (respond pending (Some (result\<lparr>AllocIndex := allocIndex\<rparr>)) None w'))
          else Some (respond pending (Some result) None w))"

text \<open>
  \<^verbatim>\<open>planApply\<close>: the loop, over the pending plans that \<^verbatim>\<open>Dequeue\<close> hands out before it
  returns an error (the queue is closed), each with the orders of its \<^verbatim>\<open>range\<close> loops.
  With the dequeued plans exhausted, \<^verbatim>\<open>Dequeue\<close> fails and the loop returns.
\<close>

fun planApply ::
  "('node, 'st) Server \<Rightarrow> (pendingPlan \<times> RangeOrders) list \<Rightarrow> 'st World \<Rightarrow> 'st World option" where
  "planApply s [] w = Some w"
| "planApply s ((pending, ord) # queue) w =
     (case planApplyOnce s pending ord w of
        None \<Rightarrow> None
      | Some w' \<Rightarrow> planApply s queue w')"

section \<open>Notions used to state the properties\<close>

text \<open>
  Lines 66 to 87 for the node \<open>n\<close> of a plan: both reads succeed and \<^verbatim>\<open>AllocationsFit\<close>
  accepts the proposed allocations, so that the body takes the branch that adds the
  node to the result.
\<close>

definition node_fits ::
  "('node \<Rightarrow> Allocation list \<Rightarrow> bool) \<Rightarrow> 'node StateSnapshot \<Rightarrow> Plan \<Rightarrow> string \<Rightarrow> bool" where
  "node_fits fit snap pl n =
     (case GetNodeByID snap n of
        Inl err \<Rightarrow> False
      | Inr node \<Rightarrow>
         (case AllocsByNode snap n of
            Inl err \<Rightarrow> False
          | Inr existingAlloc \<Rightarrow>
              fit node (proposed_allocs existingAlloc (index_map (Plan.NodeEvict pl) n)
                          (index_map (Plan.NodeAllocation pl) n))))"

text \<open>
  The invariant of the result holder: a node recorded in either map is a node of
  \<^verbatim>\<open>plan.NodeAllocation\<close> that passed the fit check, recorded with both of its lists, and
  no empty list is ever recorded.
\<close>

definition accepted_ok ::
  "('node \<Rightarrow> Allocation list \<Rightarrow> bool) \<Rightarrow> 'node StateSnapshot \<Rightarrow> Plan \<Rightarrow> PlanResult \<Rightarrow> bool" where
  "accepted_ok fit snap pl r =
     (\<forall>n. (n \<in> dom (PlanResult.NodeEvict r) \<union> dom (PlanResult.NodeAllocation r) \<longrightarrow>
             n \<in> dom (Plan.NodeAllocation pl) \<and>
             index_map (PlanResult.NodeAllocation r) n = index_map (Plan.NodeAllocation pl) n \<and>
             index_map (PlanResult.NodeEvict r) n = index_map (Plan.NodeEvict pl) n \<and>
             node_fits fit snap pl n) \<and>
          PlanResult.NodeEvict r n \<noteq> Some [] \<and> PlanResult.NodeAllocation r n \<noteq> Some [])"

text \<open>The step of the loop for an entry that fits.\<close>

definition accept_entry :: "Plan \<Rightarrow> string \<times> Allocation list \<Rightarrow> PlanResult \<Rightarrow> PlanResult" where
  "accept_entry pl entry result =
     add_to_result (fst entry) (index_map (Plan.NodeEvict pl) (fst entry)) (snd entry) result"

section \<open>Specification-side notions\<close>

text \<open>
  The proposed set in the words of the specification: start with the existing
  allocations; if the node's eviction list is non-empty, remove all allocations whose IDs
  appear in it; then append the node's new allocations.
\<close>

definition proposed_set_spec :: "Plan \<Rightarrow> string \<Rightarrow> Allocation list \<Rightarrow> Allocation list" where
  "proposed_set_spec pl n existing =
     (if index_map (Plan.NodeEvict pl) n \<noteq> []
      then [a \<leftarrow> existing. ID a \<notin> set (index_map (Plan.NodeEvict pl) n)]
      else existing) @ index_map (Plan.NodeAllocation pl) n"

text \<open>The calls of \<^verbatim>\<open>respond\<close> in a trace, in order.\<close>

fun responses :: "event list \<Rightarrow> (pendingPlan \<times> PlanResult option \<times> error option) list" where
  "responses [] = []"
| "responses (Respond pending result err # evs) = (pending, result, err) # responses evs"
| "responses (RaftApply req index err # evs) = responses evs"

section \<open>Scenarios\<close>

text \<open>
  A cluster in the manner of the specification's scenarios. A node is its capacity,
  counted in allocations: node A holds two, node B holds one and already runs \<open>b1\<close>,
  no other node exists. The index of table "nodes" is 7, that of "allocs" is 3, and a
  table the store does not know has index 0.
\<close>

definition alloc :: "string \<Rightarrow> Allocation" where
  "alloc i = \<lparr>ID = i\<rparr>"

definition cluster :: "nat StateSnapshot" where
  "cluster =
     \<lparr>GetNodeByID = (\<lambda>n. if n = ''A'' then Inr 2 else if n = ''B'' then Inr 1
                          else Inl (Failure ''node not found'')),
      AllocsByNode = (\<lambda>n. if n = ''B'' then Inr [alloc ''b1''] else Inr []),
      GetIndex = (\<lambda>t. if t = ''nodes'' then Inr 7 else if t = ''allocs'' then Inr 3
                       else Inr 0)\<rparr>"

text \<open>
  A leader whose state is the number of entries in its log: every snapshot is
  \<open>cluster\<close>, and \<open>raftApply\<close> appends an entry and returns its index.
\<close>

definition leader :: "(nat, nat) Server" where
  "leader =
     \<lparr>Snapshot = (\<lambda>st. Inr cluster),
      raftApply = (\<lambda>st req. (Suc st, of_nat (Suc st), None)),
      AllocationsFit = (\<lambda>capacity proposed. length proposed \<le> capacity)\<rparr>"

text \<open>Place \<open>a1\<close> on A and \<open>b2\<close> on B: A fits, B does not.\<close>

definition plan_partial :: Plan where
  "plan_partial =
     \<lparr>AllAtOnce = False, Plan.NodeEvict = Map.empty,
      Plan.NodeAllocation = [''A'' \<mapsto> [alloc ''a1''], ''B'' \<mapsto> [alloc ''b2'']]\<rparr>"

text \<open>The same placements, all at once.\<close>

definition plan_all_at_once :: Plan where
  "plan_all_at_once = plan_partial\<lparr>AllAtOnce := True\<rparr>"

text \<open>Evict \<open>b1\<close> from B and place \<open>b3\<close> there: the eviction makes room.\<close>

definition plan_evict :: Plan where
  "plan_evict =
     \<lparr>AllAtOnce = False, Plan.NodeEvict = [''B'' \<mapsto> [''b1'']],
      Plan.NodeAllocation = [''B'' \<mapsto> [alloc ''b3'']]\<rparr>"

text \<open>Place \<open>a1\<close> on A; evict \<open>b1\<close> from B, where nothing is placed.\<close>

definition plan_evict_only :: Plan where
  "plan_evict_only =
     \<lparr>AllAtOnce = False, Plan.NodeEvict = [''B'' \<mapsto> [''b1'']],
      Plan.NodeAllocation = [''A'' \<mapsto> [alloc ''a1'']]\<rparr>"

text \<open>An empty list of placements for A; evict \<open>b1\<close> from B.\<close>

definition plan_empty_list :: Plan where
  "plan_empty_list =
     \<lparr>AllAtOnce = False, Plan.NodeEvict = [''B'' \<mapsto> [''b1'']],
      Plan.NodeAllocation = [''A'' \<mapsto> []]\<rparr>"

text \<open>Place \<open>c1\<close> on node C, which the snapshot does not have.\<close>

definition plan_vanished :: Plan where
  "plan_vanished =
     \<lparr>AllAtOnce = False, Plan.NodeEvict = Map.empty,
      Plan.NodeAllocation = [''C'' \<mapsto> [alloc ''c1'']]\<rparr>"

text \<open>The result of evaluating \<open>plan_evict\<close>: the eviction and the placement on B.\<close>

definition result_evict :: PlanResult where
  "result_evict =
     \<lparr>PlanResult.NodeEvict = [''B'' \<mapsto> [''b1'']],
      PlanResult.NodeAllocation = [''B'' \<mapsto> [alloc ''b3'']],
      RefreshIndex = 0, AllocIndex = 0\<rparr>"

text \<open>The same cluster with both reads of node B failing.\<close>

definition cluster_B_unreadable :: "nat StateSnapshot" where
  "cluster_B_unreadable =
     cluster\<lparr>GetNodeByID := (GetNodeByID cluster)(''B'' := Inl (Failure ''unreadable'')),
             AllocsByNode := (AllocsByNode cluster)(''B'' := Inl (Failure ''unreadable''))\<rparr>"

definition leader_B_unreadable :: "(nat, nat) Server" where
  "leader_B_unreadable = leader\<lparr>Snapshot := (\<lambda>st. Inr cluster_B_unreadable)\<rparr>"

text \<open>A leader whose fit predicate differs from that of \<open>leader\<close> on nodes of capacity 5.\<close>

definition leader_other_fit :: "(nat, nat) Server" where
  "leader_other_fit =
     leader\<lparr>AllocationsFit :=
              (\<lambda>capacity proposed. length proposed \<le> capacity \<and> capacity \<noteq> 5)\<rparr>"

text \<open>Pending plans, iteration orders and the world before the applier starts.\<close>

definition pending_partial :: pendingPlan where
  "pending_partial = \<lparr>plan = plan_partial\<rparr>"

definition pending_all_at_once :: pendingPlan where
  "pending_all_at_once = \<lparr>plan = plan_all_at_once\<rparr>"

definition orders_AB :: RangeOrders where
  "orders_AB = \<lparr>planOrder = [''A'', ''B''], evictOrder = [''A'', ''B''],
                allocOrder = [''A'', ''B'']\<rparr>"

definition orders_BA :: RangeOrders where
  "orders_BA = \<lparr>planOrder = [''B'', ''A''], evictOrder = [''B'', ''A''],
                allocOrder = [''B'', ''A'']\<rparr>"

definition world0 :: "nat World" where
  "world0 = \<lparr>state = 0, events = []\<rparr>"

text \<open>
  The result of evaluating \<open>plan_partial\<close> and, when A is visited before B, of
  evaluating \<open>plan_all_at_once\<close>: the placement on A, and the index of "allocs".
\<close>

definition result_partial :: PlanResult where
  "result_partial =
     \<lparr>PlanResult.NodeEvict = Map.empty,
      PlanResult.NodeAllocation = [''A'' \<mapsto> [alloc ''a1'']],
      RefreshIndex = 3, AllocIndex = 0\<rparr>"

text \<open>The result of evaluating \<open>plan_evict_only\<close>: the placement on A alone.\<close>

definition result_evict_only :: PlanResult where
  "result_evict_only =
     \<lparr>PlanResult.NodeEvict = Map.empty,
      PlanResult.NodeAllocation = [''A'' \<mapsto> [alloc ''a1'']],
      RefreshIndex = 0, AllocIndex = 0\<rparr>"

text \<open>The result of evaluating \<open>plan_all_at_once\<close> when B is visited first: nothing accepted.\<close>

definition result_rejected :: PlanResult where
  "result_rejected =
     \<lparr>PlanResult.NodeEvict = Map.empty, PlanResult.NodeAllocation = Map.empty,
      RefreshIndex = 3, AllocIndex = 0\<rparr>"





lemmas result_defs = result_partial_def result_evict_only_def result_rejected_def

lemmas scenario_defs =
  alloc_def cluster_def leader_def plan_partial_def plan_all_at_once_def plan_evict_def
  plan_evict_only_def plan_empty_list_def plan_vanished_def result_evict_def
  cluster_B_unreadable_def
  leader_B_unreadable_def leader_other_fit_def pending_partial_def pending_all_at_once_def
  orders_AB_def orders_BA_def world0_def

lemmas evaluate_defs =
  evaluatePlan_def evaluateNode_def new_result_def index_map_def proposed_allocs_def
  add_to_result_def maxUint64_def RemoveAllocs_def node_fits_def

section \<open>The iteration over a map\<close>

lemma range_map_entry:
  "(k, v) \<in> set (range_map m ks) \<Longrightarrow> m k = Some v \<and> k \<in> set ks"
  by (induction ks) (auto split: option.splits)

lemma range_map_keys: "fst ` set (range_map m ks) = set ks \<inter> dom m"
  by (induction ks) (auto split: option.splits)

lemma range_map_distinct: "distinct ks \<Longrightarrow> distinct (map fst (range_map m ks))"
proof (induction ks)
  case Nil
  then show ?case by simp
next
  case (Cons k ks)
  have "k \<notin> fst ` set (range_map m ks)"
    using Cons.prems by (simp add: range_map_keys)
  with Cons show ?case by (simp split: option.splits)
qed

section \<open>The outcomes of evaluatePlan\<close>

lemma evaluateNode_Return_cases:
  assumes "evaluateNode fit snap pl entry result = Return (r, e)"
  shows "(r = None \<and> e \<noteq> None) \<or>
         (e = None \<and> AllAtOnce pl \<and>
          (\<exists>i. r = Some (result\<lparr>RefreshIndex := i\<rparr>)))"
  using assms
  by (auto simp: evaluateNode_def Let_def split: prod.splits sum.splits if_splits)

lemma evaluateNode_Continue_cases:
  assumes "evaluateNode fit snap pl (nodeID, allocList) result = Continue result'"
  shows "(\<exists>i. result' = result\<lparr>RefreshIndex := i\<rparr>) \<or>
         result' = add_to_result nodeID (index_map (Plan.NodeEvict pl) nodeID) allocList result"
  using assms
  by (auto simp: evaluateNode_def Let_def split: prod.splits sum.splits if_splits)

lemma evaluateNodes_error_nil:
  "evaluateNodes fit snap pl entries result = (r, Some e) \<Longrightarrow> r = None"
proof (induction entries arbitrary: result)
  case Nil
  then show ?case by simp
next
  case (Cons entry rest)
  show ?case
  proof (cases "evaluateNode fit snap pl entry result")
    case (Continue result')
    with Cons show ?thesis by simp
  next
    case (Return p)
    with Cons.prems have "evaluateNode fit snap pl entry result = Return (r, Some e)"
      by simp
    from evaluateNode_Return_cases[OF this] show ?thesis by simp
  qed
qed

lemma evaluateNodes_not_nil_nil:
  "evaluateNodes fit snap pl entries result \<noteq> (None, None)"
proof (induction entries arbitrary: result)
  case Nil
  then show ?case by simp
next
  case (Cons entry rest)
  show ?case
  proof (cases "evaluateNode fit snap pl entry result")
    case (Continue result')
    with Cons show ?thesis by simp
  next
    case (Return p)
    obtain r e where p: "p = (r, e)" by (cases p)
    from evaluateNode_Return_cases[OF Return[unfolded p]] Return p show ?thesis by auto
  qed
qed

lemma evaluatePlan_nil_on_error:
  "evaluatePlan s st pl order = (r, Some e) \<Longrightarrow> r = None"
  by (cases "Snapshot s st") (auto simp: evaluatePlan_def dest: evaluateNodes_error_nil)

lemma evaluatePlan_not_nil_nil: "evaluatePlan s st pl order \<noteq> (None, None)"
  by (cases "Snapshot s st") (simp_all add: evaluatePlan_def evaluateNodes_not_nil_nil)

lemma evaluatePlan_outcomes:
  obtains (failed) e where "evaluatePlan s st pl order = (None, Some e)"
  | (evaluated) r where "evaluatePlan s st pl order = (Some r, None)"
proof -
  obtain ro eo where re: "evaluatePlan s st pl order = (ro, eo)"
    by (cases "evaluatePlan s st pl order")
  show thesis
  proof (cases eo)
    case None
    with re evaluatePlan_not_nil_nil[of s st pl order] obtain r where "ro = Some r"
      by (cases ro) auto
    with None re evaluated show ?thesis by simp
  next
    case (Some e)
    with re evaluatePlan_nil_on_error[of s st pl order ro e] have "ro = None" by simp
    with Some re failed show ?thesis by simp
  qed
qed

text \<open>
  C10. Whenever \<^verbatim>\<open>evaluatePlan\<close> returns a non-nil error, the returned \<^verbatim>\<open>PlanResult\<close> is
  nil: whichever read fails, and however many nodes were accepted before it, the caller
  never gets a result together with an error.
\<close>

theorem evaluatePlan_error_nil_result:
  "snd (evaluatePlan s st pl order) \<noteq> None \<longrightarrow> fst (evaluatePlan s st pl order) = None"
  by (cases rule: evaluatePlan_outcomes[of s st pl order]) simp_all

theorem evaluatePlan_error_nil_result_witness:
  "snd (evaluatePlan leader 0 plan_vanished [''C'']) \<noteq> None \<and>
   fst (evaluatePlan leader 0 plan_vanished [''C'']) = None"
proof -
  have h: "snd (evaluatePlan leader 0 plan_vanished [''C'']) \<noteq> None"
    by (simp add: scenario_defs evaluate_defs)
  have c: "fst (evaluatePlan leader 0 plan_vanished [''C'']) = None"
    using evaluatePlan_error_nil_result[of leader 0 plan_vanished "[''C'']"] h by blast
  show ?thesis by (rule conjI[OF h c])
qed

section \<open>Nodes recorded in the result\<close>

lemma accepted_ok_new_result: "accepted_ok fit snap pl new_result"
  by (simp add: accepted_ok_def new_result_def)

lemma accepted_ok_RefreshIndex:
  "accepted_ok fit snap pl (r\<lparr>RefreshIndex := i\<rparr>) = accepted_ok fit snap pl r"
  by (simp add: accepted_ok_def)

lemma evaluateNode_Continue_fit:
  assumes "evaluateNode fit snap pl (nodeID, allocList) result = Continue result'"
    and "Plan.NodeAllocation pl nodeID = Some allocList"
  shows "(\<exists>i. result' = result\<lparr>RefreshIndex := i\<rparr>) \<or>
         (result' = add_to_result nodeID (index_map (Plan.NodeEvict pl) nodeID) allocList result
          \<and> node_fits fit snap pl nodeID)"
  using assms
  by (auto simp: evaluateNode_def node_fits_def index_map_def Let_def
           split: prod.splits sum.splits if_splits)

lemma accepted_ok_add:
  assumes "accepted_ok fit snap pl r" and "Plan.NodeAllocation pl k = Some v"
    and "node_fits fit snap pl k"
  shows "accepted_ok fit snap pl (add_to_result k (index_map (Plan.NodeEvict pl) k) v r)"
  unfolding accepted_ok_def
proof (intro allI)
  fix n
  let ?r' = "add_to_result k (index_map (Plan.NodeEvict pl) k) v r"
  from assms(1) have old:
    "n \<in> dom (PlanResult.NodeEvict r) \<union> dom (PlanResult.NodeAllocation r) \<Longrightarrow>
       n \<in> dom (Plan.NodeAllocation pl) \<and>
       index_map (PlanResult.NodeAllocation r) n = index_map (Plan.NodeAllocation pl) n \<and>
       index_map (PlanResult.NodeEvict r) n = index_map (Plan.NodeEvict pl) n \<and>
       node_fits fit snap pl n"
    and ne: "PlanResult.NodeEvict r n \<noteq> Some []" "PlanResult.NodeAllocation r n \<noteq> Some []"
    unfolding accepted_ok_def by blast+
  show "(n \<in> dom (PlanResult.NodeEvict ?r') \<union> dom (PlanResult.NodeAllocation ?r') \<longrightarrow>
             n \<in> dom (Plan.NodeAllocation pl) \<and>
             index_map (PlanResult.NodeAllocation ?r') n = index_map (Plan.NodeAllocation pl) n \<and>
             index_map (PlanResult.NodeEvict ?r') n = index_map (Plan.NodeEvict pl) n \<and>
             node_fits fit snap pl n) \<and>
          PlanResult.NodeEvict ?r' n \<noteq> Some [] \<and> PlanResult.NodeAllocation ?r' n \<noteq> Some []"
  proof (cases "n = k")
    case False
    with old ne show ?thesis
      by (auto simp: add_to_result_def Let_def index_map_def)
  next
    case True
    show ?thesis
    proof (cases "k \<in> dom (PlanResult.NodeEvict r) \<union> dom (PlanResult.NodeAllocation r)")
      case True
      with old \<open>n = k\<close> have
        "index_map (PlanResult.NodeAllocation r) k = index_map (Plan.NodeAllocation pl) k"
        "index_map (PlanResult.NodeEvict r) k = index_map (Plan.NodeEvict pl) k"
        by simp_all
      with \<open>n = k\<close> assms(2,3) ne show ?thesis
        by (auto simp: add_to_result_def Let_def index_map_def split: option.splits)
    next
      case False
      with \<open>n = k\<close> assms(2,3) ne show ?thesis
        by (auto simp: add_to_result_def Let_def index_map_def split: option.splits)
    qed
  qed
qed

lemma evaluateNodes_accepted_ok:
  assumes "\<forall>(k, v) \<in> set entries. Plan.NodeAllocation pl k = Some v"
    and "accepted_ok fit snap pl result"
    and "evaluateNodes fit snap pl entries result = (Some r, e)"
  shows "accepted_ok fit snap pl r"
  using assms
proof (induction entries arbitrary: result)
  case Nil
  then show ?case by simp
next
  case (Cons entry rest)
  obtain k v where entry: "entry = (k, v)" by (cases entry)
  with Cons.prems(1) have kv: "Plan.NodeAllocation pl k = Some v" by simp
  show ?case
  proof (cases "evaluateNode fit snap pl entry result")
    case (Continue result')
    from evaluateNode_Continue_fit[OF Continue[unfolded entry] kv]
    have "accepted_ok fit snap pl result'"
      using Cons.prems(2) kv by (auto simp: accepted_ok_RefreshIndex intro: accepted_ok_add)
    moreover from Cons.prems(3) Continue
    have "evaluateNodes fit snap pl rest result' = (Some r, e)" by simp
    ultimately show ?thesis using Cons.IH Cons.prems(1) by simp
  next
    case (Return p)
    with Cons.prems(3) have "evaluateNode fit snap pl entry result = Return (Some r, e)"
      by simp
    from evaluateNode_Return_cases[OF this] Cons.prems(2) show ?thesis
      by (auto simp: accepted_ok_RefreshIndex)
  qed
qed

lemma evaluateNodes_AllocIndex:
  "evaluateNodes fit snap pl entries result = (Some r, e) \<Longrightarrow> AllocIndex r = AllocIndex result"
proof (induction entries arbitrary: result)
  case Nil
  then show ?case by simp
next
  case (Cons entry rest)
  obtain k v where entry: "entry = (k, v)" by (cases entry)
  show ?case
  proof (cases "evaluateNode fit snap pl entry result")
    case (Continue result')
    from evaluateNode_Continue_cases[OF Continue[unfolded entry]]
    have "AllocIndex result' = AllocIndex result"
      by (auto simp: add_to_result_def Let_def)
    with Cons Continue show ?thesis by simp
  next
    case (Return p)
    with Cons.prems have "evaluateNode fit snap pl entry result = Return (Some r, e)"
      by simp
    from evaluateNode_Return_cases[OF this] show ?thesis by auto
  qed
qed

lemma evaluatePlan_accepted_ok:
  assumes "Snapshot s st = Inr snap" and "evaluatePlan s st pl order = (Some r, e)"
  shows "accepted_ok (AllocationsFit s) snap pl r"
proof -
  have "\<forall>(k, v) \<in> set (range_map (Plan.NodeAllocation pl) order). Plan.NodeAllocation pl k = Some v"
    using range_map_entry by fastforce
  from evaluateNodes_accepted_ok[OF this accepted_ok_new_result] assms
  show ?thesis by (simp add: evaluatePlan_def)
qed

lemma accepted_ok_map_le:
  assumes "accepted_ok fit snap pl r"
  shows "PlanResult.NodeAllocation r \<subseteq>\<^sub>m Plan.NodeAllocation pl \<and>
         PlanResult.NodeEvict r \<subseteq>\<^sub>m Plan.NodeEvict pl"
proof -
  have "PlanResult.NodeAllocation r n = Plan.NodeAllocation pl n"
    if "n \<in> dom (PlanResult.NodeAllocation r)" for n
  proof -
    from that assms have "n \<in> dom (Plan.NodeAllocation pl)"
      "index_map (PlanResult.NodeAllocation r) n = index_map (Plan.NodeAllocation pl) n"
      unfolding accepted_ok_def by blast+
    with that show ?thesis by (auto simp: index_map_def)
  qed
  moreover have "PlanResult.NodeEvict r n = Plan.NodeEvict pl n"
    if "n \<in> dom (PlanResult.NodeEvict r)" for n
  proof -
    from that assms have
      "index_map (PlanResult.NodeEvict r) n = index_map (Plan.NodeEvict pl) n"
      "PlanResult.NodeEvict r n \<noteq> Some []"
      unfolding accepted_ok_def by blast+
    with that show ?thesis by (auto simp: index_map_def split: option.splits)
  qed
  ultimately show ?thesis by (simp add: map_le_def)
qed

text \<open>
  C4. For every node \<open>n\<close> that appears in the result of \<^verbatim>\<open>evaluatePlan\<close>, the list of
  allocations placed for \<open>n\<close> is \<^verbatim>\<open>plan.NodeAllocation[n]\<close> and the list of evictions
  recorded for \<open>n\<close> is \<^verbatim>\<open>plan.NodeEvict[n]\<close>, each whole: never a strict part of either.
  The lists are read as Go reads them, a missing key giving the list of length 0; an
  entry that the result holds is moreover the plan's entry itself.
\<close>

theorem evaluatePlan_accepted_node_whole:
  assumes "evaluatePlan s st pl order = (Some r, e)"
    and "n \<in> dom (PlanResult.NodeAllocation r) \<union> dom (PlanResult.NodeEvict r)"
  shows "index_map (PlanResult.NodeAllocation r) n = index_map (Plan.NodeAllocation pl) n \<and>
         index_map (PlanResult.NodeEvict r) n = index_map (Plan.NodeEvict pl) n \<and>
         (n \<in> dom (PlanResult.NodeAllocation r) \<longrightarrow>
            PlanResult.NodeAllocation r n = Plan.NodeAllocation pl n) \<and>
         (n \<in> dom (PlanResult.NodeEvict r) \<longrightarrow>
            PlanResult.NodeEvict r n = Plan.NodeEvict pl n)"
proof (cases "Snapshot s st")
  case (Inl err)
  with assms(1) show ?thesis by (simp add: evaluatePlan_def)
next
  case (Inr snap)
  note ok = evaluatePlan_accepted_ok[OF Inr assms(1)]
  from ok assms(2) have
    "index_map (PlanResult.NodeAllocation r) n = index_map (Plan.NodeAllocation pl) n"
    "index_map (PlanResult.NodeEvict r) n = index_map (Plan.NodeEvict pl) n"
    unfolding accepted_ok_def by blast+
  moreover from accepted_ok_map_le[OF ok] have
    "n \<in> dom (PlanResult.NodeAllocation r) \<longrightarrow>
       PlanResult.NodeAllocation r n = Plan.NodeAllocation pl n"
    "n \<in> dom (PlanResult.NodeEvict r) \<longrightarrow> PlanResult.NodeEvict r n = Plan.NodeEvict pl n"
    by (simp_all add: map_le_def)
  ultimately show ?thesis by blast
qed

theorem evaluatePlan_accepted_node_whole_witness:
  "evaluatePlan leader 0 plan_evict [''B''] = (Some result_evict, None) \<and>
   ''B'' \<in> dom (PlanResult.NodeAllocation result_evict) \<union> dom (PlanResult.NodeEvict result_evict) \<and>
   index_map (PlanResult.NodeAllocation result_evict) ''B'' =
     index_map (Plan.NodeAllocation plan_evict) ''B'' \<and>
   index_map (PlanResult.NodeEvict result_evict) ''B'' =
     index_map (Plan.NodeEvict plan_evict) ''B''"
proof -
  have h1: "evaluatePlan leader 0 plan_evict [''B''] = (Some result_evict, None)"
    by (simp add: scenario_defs evaluate_defs)
  have h2: "''B'' \<in> dom (PlanResult.NodeAllocation result_evict) \<union>
                   dom (PlanResult.NodeEvict result_evict)"
    by (simp add: result_evict_def)
  from evaluatePlan_accepted_node_whole[OF h1 h2]
  have c: "index_map (PlanResult.NodeAllocation result_evict) ''B'' =
             index_map (Plan.NodeAllocation plan_evict) ''B'' \<and>
           index_map (PlanResult.NodeEvict result_evict) ''B'' =
             index_map (Plan.NodeEvict plan_evict) ''B''"
    by blast
  show ?thesis by (rule conjI[OF h1 conjI[OF h2 c]])
qed

section \<open>A plan whose nodes all fit\<close>

lemma evaluateNode_fits:
  assumes "Plan.NodeAllocation pl k = Some v" and "node_fits fit snap pl k"
  shows "evaluateNode fit snap pl (k, v) result =
           Continue (add_to_result k (index_map (Plan.NodeEvict pl) k) v result)"
  using assms
  by (auto simp: evaluateNode_def node_fits_def index_map_def Let_def split: sum.splits)

lemma evaluateNodes_all_fit:
  assumes "\<forall>(k, v) \<in> set entries. Plan.NodeAllocation pl k = Some v \<and> node_fits fit snap pl k"
  shows "evaluateNodes fit snap pl entries result = (Some (fold (accept_entry pl) entries result), None)"
  using assms
proof (induction entries arbitrary: result)
  case Nil
  then show ?case by simp
next
  case (Cons entry rest)
  obtain k v where entry: "entry = (k, v)" by (cases entry)
  with Cons.prems have "Plan.NodeAllocation pl k = Some v" "node_fits fit snap pl k" by auto
  from evaluateNode_fits[OF this] entry Cons show ?case
    by (simp add: accept_entry_def)
qed

lemma fold_accept_indices:
  "RefreshIndex (fold (accept_entry pl) entries result) = RefreshIndex result \<and>
   AllocIndex (fold (accept_entry pl) entries result) = AllocIndex result"
  by (induction entries arbitrary: result) (auto simp: accept_entry_def add_to_result_def Let_def)

lemma fold_accept_NodeAllocation:
  assumes "\<forall>(k, v) \<in> set entries. Plan.NodeAllocation pl k = Some v"
  shows "PlanResult.NodeAllocation (fold (accept_entry pl) entries result) n =
           (if n \<in> fst ` set entries \<and> index_map (Plan.NodeAllocation pl) n \<noteq> []
            then Plan.NodeAllocation pl n else PlanResult.NodeAllocation result n)"
  using assms
proof (induction entries arbitrary: result)
  case Nil
  then show ?case by simp
next
  case (Cons entry rest)
  obtain k v where entry: "entry = (k, v)" by (cases entry)
  with Cons.prems have kv: "Plan.NodeAllocation pl k = Some v" by simp
  have step: "PlanResult.NodeAllocation (accept_entry pl entry result) n =
        (if n = k \<and> v \<noteq> [] then Some v else PlanResult.NodeAllocation result n)"
    by (simp add: accept_entry_def add_to_result_def Let_def entry)
  from Cons.prems have "\<forall>(k, v) \<in> set rest. Plan.NodeAllocation pl k = Some v" by simp
  from Cons.IH[OF this, of "accept_entry pl entry result"] step kv entry
  show ?case by (auto simp: index_map_def)
qed

lemma fold_accept_NodeEvict:
  "PlanResult.NodeEvict (fold (accept_entry pl) entries result) n =
           (if n \<in> fst ` set entries \<and> index_map (Plan.NodeEvict pl) n \<noteq> []
            then Plan.NodeEvict pl n else PlanResult.NodeEvict result n)"
proof (induction entries arbitrary: result)
  case Nil
  then show ?case by simp
next
  case (Cons entry rest)
  obtain k v where entry: "entry = (k, v)" by (cases entry)
  have step: "PlanResult.NodeEvict (accept_entry pl entry result) n =
        (if n = k \<and> index_map (Plan.NodeEvict pl) k \<noteq> [] then Some (index_map (Plan.NodeEvict pl) k)
         else PlanResult.NodeEvict result n)"
    by (simp add: accept_entry_def add_to_result_def Let_def entry)
  from Cons.IH[of "accept_entry pl entry result"] step entry
  show ?case by (auto simp: index_map_def split: option.splits)
qed

text \<open>
  C3, as the specification states it, fails: with the fit check true for every node of
  \<^verbatim>\<open>plan.NodeAllocation\<close>, the result maps need not equal the plan's. Node A has an
  empty list of placements, which line 114 does not record, and node B is only in
  \<^verbatim>\<open>plan.NodeEvict\<close>, which the loop does not visit.
\<close>

theorem evaluatePlan_round_trip_counterexample:
  "range_order (Plan.NodeAllocation plan_empty_list) [''A''] \<and>
   node_fits (AllocationsFit leader) cluster plan_empty_list ''A'' \<and>
   evaluatePlan leader 0 plan_empty_list [''A''] = (Some new_result, None) \<and>
   PlanResult.NodeAllocation new_result ''A'' \<noteq> Plan.NodeAllocation plan_empty_list ''A'' \<and>
   PlanResult.NodeEvict new_result ''B'' \<noteq> Plan.NodeEvict plan_empty_list ''B''"
  by (simp add: scenario_defs evaluate_defs range_order_def)

text \<open>
  C3, amended. If the snapshot is there and the fit check succeeds for every node of
  \<^verbatim>\<open>plan.NodeAllocation\<close> (its two reads succeed and \<^verbatim>\<open>AllocationsFit\<close> returns true), then
  \<^verbatim>\<open>evaluatePlan\<close> returns no error and a result with \<^verbatim>\<open>RefreshIndex\<close> 0 whose
  \<^verbatim>\<open>NodeAllocation\<close> is the plan's without the entries whose list is empty, and whose
  \<^verbatim>\<open>NodeEvict\<close> is the plan's restricted to the nodes of \<^verbatim>\<open>plan.NodeAllocation\<close>, without
  the entries whose list is empty.
\<close>

theorem evaluatePlan_all_fit:
  assumes "Snapshot s st = Inr snap"
    and "range_order (Plan.NodeAllocation pl) order"
    and "\<forall>n \<in> dom (Plan.NodeAllocation pl). node_fits (AllocationsFit s) snap pl n"
  shows "evaluatePlan s st pl order =
           (Some \<lparr>PlanResult.NodeEvict =
                    (\<lambda>n. if n \<in> dom (Plan.NodeAllocation pl) \<and> index_map (Plan.NodeEvict pl) n \<noteq> []
                         then Plan.NodeEvict pl n else None),
                  PlanResult.NodeAllocation =
                    (\<lambda>n. if index_map (Plan.NodeAllocation pl) n \<noteq> []
                         then Plan.NodeAllocation pl n else None),
                  RefreshIndex = 0, AllocIndex = 0\<rparr>, None)"
proof -
  let ?entries = "range_map (Plan.NodeAllocation pl) order"
  let ?r = "fold (accept_entry pl) ?entries new_result"
  have keys: "fst ` set ?entries = dom (Plan.NodeAllocation pl)"
    using assms(2) by (auto simp: range_map_keys range_order_def)
  have ents: "\<forall>(k, v) \<in> set ?entries. Plan.NodeAllocation pl k = Some v"
    using range_map_entry by fastforce
  have "\<forall>(k, v) \<in> set ?entries.
          Plan.NodeAllocation pl k = Some v \<and> node_fits (AllocationsFit s) snap pl k"
    using ents assms(3) by fastforce
  from evaluateNodes_all_fit[OF this] assms(1)
  have run: "evaluatePlan s st pl order = (Some ?r, None)"
    by (simp add: evaluatePlan_def)
  have ev: "PlanResult.NodeEvict ?r =
          (\<lambda>n. if n \<in> dom (Plan.NodeAllocation pl) \<and> index_map (Plan.NodeEvict pl) n \<noteq> []
               then Plan.NodeEvict pl n else None)"
    by (rule ext) (simp add: fold_accept_NodeEvict keys new_result_def)
  have al: "PlanResult.NodeAllocation ?r =
          (\<lambda>n. if index_map (Plan.NodeAllocation pl) n \<noteq> []
               then Plan.NodeAllocation pl n else None)"
    by (rule ext) (auto simp: fold_accept_NodeAllocation[OF ents] keys new_result_def index_map_def)
  have ix: "RefreshIndex ?r = 0" "AllocIndex ?r = 0"
    by (simp_all add: fold_accept_indices new_result_def)
  have "?r = \<lparr>PlanResult.NodeEvict = PlanResult.NodeEvict ?r,
              PlanResult.NodeAllocation = PlanResult.NodeAllocation ?r,
              RefreshIndex = RefreshIndex ?r, AllocIndex = AllocIndex ?r\<rparr>"
    by simp
  with run ev al ix show ?thesis by simp
qed

theorem evaluatePlan_all_fit_witness:
  "Snapshot leader 0 = Inr cluster \<and>
   range_order (Plan.NodeAllocation plan_evict) [''B''] \<and>
   dom (Plan.NodeAllocation plan_evict) = {''B''} \<and>
   node_fits (AllocationsFit leader) cluster plan_evict ''B'' \<and>
   evaluatePlan leader 0 plan_evict [''B''] =
     (Some \<lparr>PlanResult.NodeEvict =
              (\<lambda>n. if n \<in> dom (Plan.NodeAllocation plan_evict) \<and>
                       index_map (Plan.NodeEvict plan_evict) n \<noteq> []
                    then Plan.NodeEvict plan_evict n else None),
            PlanResult.NodeAllocation =
              (\<lambda>n. if index_map (Plan.NodeAllocation plan_evict) n \<noteq> []
                    then Plan.NodeAllocation plan_evict n else None),
            RefreshIndex = 0, AllocIndex = 0\<rparr>, None)"
proof -
  have h1: "Snapshot leader 0 = Inr cluster"
    by (simp add: leader_def)
  have h2: "range_order (Plan.NodeAllocation plan_evict) [''B'']"
    by (simp add: range_order_def plan_evict_def)
  have d: "dom (Plan.NodeAllocation plan_evict) = {''B''}"
    by (simp add: plan_evict_def)
  have f: "node_fits (AllocationsFit leader) cluster plan_evict ''B''"
    by (simp add: scenario_defs evaluate_defs)
  from d f have h3: "\<forall>n \<in> dom (Plan.NodeAllocation plan_evict).
              node_fits (AllocationsFit leader) cluster plan_evict n"
    by simp
  note c = evaluatePlan_all_fit[OF h1 h2 h3]
  show ?thesis by (rule conjI[OF h1 conjI[OF h2 conjI[OF d conjI[OF f c]]]])
qed

section \<open>Which nodes are recorded\<close>

lemma evaluateNodes_dom_mono:
  "evaluateNodes fit snap pl entries result = (Some r, e) \<Longrightarrow>
     dom (PlanResult.NodeEvict result) \<subseteq> dom (PlanResult.NodeEvict r) \<and>
     dom (PlanResult.NodeAllocation result) \<subseteq> dom (PlanResult.NodeAllocation r)"
proof (induction entries arbitrary: result)
  case Nil
  then show ?case by simp
next
  case (Cons entry rest)
  obtain k v where entry: "entry = (k, v)" by (cases entry)
  show ?case
  proof (cases "evaluateNode fit snap pl entry result")
    case (Continue result')
    from evaluateNode_Continue_cases[OF Continue[unfolded entry]]
    have "dom (PlanResult.NodeEvict result) \<subseteq> dom (PlanResult.NodeEvict result') \<and>
          dom (PlanResult.NodeAllocation result) \<subseteq> dom (PlanResult.NodeAllocation result')"
      by (auto simp: add_to_result_def Let_def)
    moreover from Cons.prems Continue have "evaluateNodes fit snap pl rest result' = (Some r, e)"
      by simp
    from Cons.IH[OF this] have
      "dom (PlanResult.NodeEvict result') \<subseteq> dom (PlanResult.NodeEvict r) \<and>
       dom (PlanResult.NodeAllocation result') \<subseteq> dom (PlanResult.NodeAllocation r)" .
    ultimately show ?thesis by blast
  next
    case (Return p)
    with Cons.prems have "evaluateNode fit snap pl entry result = Return (Some r, e)"
      by simp
    from evaluateNode_Return_cases[OF this] show ?thesis by auto
  qed
qed

lemma evaluateNodes_fit_recorded:
  assumes "\<not> AllAtOnce pl"
    and "evaluateNodes fit snap pl entries result = (Some r, e)"
    and "(k, v) \<in> set entries"
    and "Plan.NodeAllocation pl k = Some v"
    and "node_fits fit snap pl k"
  shows "(v \<noteq> [] \<longrightarrow> k \<in> dom (PlanResult.NodeAllocation r)) \<and>
         (index_map (Plan.NodeEvict pl) k \<noteq> [] \<longrightarrow> k \<in> dom (PlanResult.NodeEvict r))"
  using assms(2,3)
proof (induction entries arbitrary: result)
  case Nil
  then show ?case by simp
next
  case (Cons entry rest)
  show ?case
  proof (cases "evaluateNode fit snap pl entry result")
    case (Return p)
    with Cons.prems(1) have "evaluateNode fit snap pl entry result = Return (Some r, e)"
      by simp
    from evaluateNode_Return_cases[OF this] assms(1) show ?thesis by simp
  next
    case (Continue result')
    with Cons.prems(1) have run: "evaluateNodes fit snap pl rest result' = (Some r, e)"
      by simp
    show ?thesis
    proof (cases "entry = (k, v)")
      case True
      with Continue evaluateNode_fits[OF assms(4,5), of result]
      have "result' = add_to_result k (index_map (Plan.NodeEvict pl) k) v result"
        by simp
      then have "(v \<noteq> [] \<longrightarrow> k \<in> dom (PlanResult.NodeAllocation result')) \<and>
         (index_map (Plan.NodeEvict pl) k \<noteq> [] \<longrightarrow> k \<in> dom (PlanResult.NodeEvict result'))"
        by (simp add: add_to_result_def Let_def)
      with evaluateNodes_dom_mono[OF run] show ?thesis by blast
    next
      case False
      with Cons.prems(2) have "(k, v) \<in> set rest" by simp
      from Cons.IH[OF run this] show ?thesis .
    qed
  qed
qed

lemma evaluatePlan_fit_recorded:
  assumes "Snapshot s st = Inr snap" and "evaluatePlan s st pl order = (Some r, e)"
    and "\<not> AllAtOnce pl"
    and "n \<in> set order \<inter> dom (Plan.NodeAllocation pl)"
    and "node_fits (AllocationsFit s) snap pl n"
  shows "index_map (PlanResult.NodeAllocation r) n = index_map (Plan.NodeAllocation pl) n \<and>
         index_map (PlanResult.NodeEvict r) n = index_map (Plan.NodeEvict pl) n"
proof -
  from assms(4) obtain v where v: "Plan.NodeAllocation pl n = Some v" by blast
  from assms(4) have "n \<in> fst ` set (range_map (Plan.NodeAllocation pl) order)"
    by (simp add: range_map_keys)
  then obtain v' where "(n, v') \<in> set (range_map (Plan.NodeAllocation pl) order)"
    by force
  with range_map_entry[OF this] v
  have mem: "(n, v) \<in> set (range_map (Plan.NodeAllocation pl) order)" by simp
  from assms(1,2) have run: "evaluateNodes (AllocationsFit s) snap pl
      (range_map (Plan.NodeAllocation pl) order) new_result = (Some r, e)"
    by (simp add: evaluatePlan_def)
  note rec = evaluateNodes_fit_recorded[OF assms(3) run mem v assms(5)]
  note ok = evaluatePlan_accepted_ok[OF assms(1,2)]
  show ?thesis
  proof (cases "n \<in> dom (PlanResult.NodeEvict r) \<union> dom (PlanResult.NodeAllocation r)")
    case True
    with ok show ?thesis unfolding accepted_ok_def by blast
  next
    case False
    with rec v show ?thesis by (auto simp: index_map_def)
  qed
qed

lemma evaluatePlan_recorded_fits:
  assumes "Snapshot s st = Inr snap" and "evaluatePlan s st pl order = (Some r, e)"
    and "n \<in> dom (PlanResult.NodeEvict r) \<union> dom (PlanResult.NodeAllocation r)"
  shows "node_fits (AllocationsFit s) snap pl n"
  using evaluatePlan_accepted_ok[OF assms(1,2)] assms(3)
  unfolding accepted_ok_def by blast

section \<open>Successful reads give no error\<close>






section \<open>What the evaluation depends on\<close>

lemma proposed_allocs_spec:
  assumes "Plan.NodeAllocation pl n = Some allocList"
  shows "proposed_allocs existing (index_map (Plan.NodeEvict pl) n) allocList =
           proposed_set_spec pl n existing"
  using assms
  by (simp add: proposed_allocs_def proposed_set_spec_def RemoveAllocs_def index_map_def Let_def)

lemma evaluateNode_cong:
  assumes "GetNodeByID snap' k = GetNodeByID snap k"
    and "AllocsByNode snap' k = AllocsByNode snap k"
    and "GetIndex snap' = GetIndex snap"
    and "Plan.NodeEvict pl' k = Plan.NodeEvict pl k"
    and "AllAtOnce pl' = AllAtOnce pl"
    and "\<forall>node existing. GetNodeByID snap k = Inr node \<and> AllocsByNode snap k = Inr existing \<longrightarrow>
           fit' node (proposed_allocs existing (index_map (Plan.NodeEvict pl) k) v) =
           fit node (proposed_allocs existing (index_map (Plan.NodeEvict pl) k) v)"
  shows "evaluateNode fit' snap' pl' (k, v) result = evaluateNode fit snap pl (k, v) result"
  using assms
  by (auto simp: evaluateNode_def index_map_def Let_def split: sum.splits)

lemma evaluateNodes_cong:
  assumes "GetIndex snap' = GetIndex snap" and "AllAtOnce pl' = AllAtOnce pl"
    and "\<And>k v. (k, v) \<in> set entries \<Longrightarrow>
           GetNodeByID snap' k = GetNodeByID snap k \<and>
           AllocsByNode snap' k = AllocsByNode snap k \<and>
           Plan.NodeEvict pl' k = Plan.NodeEvict pl k"
    and "\<And>k v node existing. (k, v) \<in> set entries \<Longrightarrow>
           GetNodeByID snap k = Inr node \<Longrightarrow> AllocsByNode snap k = Inr existing \<Longrightarrow>
           fit' node (proposed_allocs existing (index_map (Plan.NodeEvict pl) k) v) =
           fit node (proposed_allocs existing (index_map (Plan.NodeEvict pl) k) v)"
  shows "evaluateNodes fit' snap' pl' entries result = evaluateNodes fit snap pl entries result"
  using assms(3,4)
proof (induction entries arbitrary: result)
  case Nil
  then show ?case by simp
next
  case (Cons entry rest)
  obtain k v where entry: "entry = (k, v)" by (cases entry)
  have "evaluateNode fit' snap' pl' (k, v) result = evaluateNode fit snap pl (k, v) result"
  proof (rule evaluateNode_cong[OF _ _ assms(1) _ assms(2)])
    show "GetNodeByID snap' k = GetNodeByID snap k" "AllocsByNode snap' k = AllocsByNode snap k"
      "Plan.NodeEvict pl' k = Plan.NodeEvict pl k"
      using Cons.prems(1)[of k v] entry by simp_all
    show "\<forall>node existing. GetNodeByID snap k = Inr node \<and> AllocsByNode snap k = Inr existing \<longrightarrow>
           fit' node (proposed_allocs existing (index_map (Plan.NodeEvict pl) k) v) =
           fit node (proposed_allocs existing (index_map (Plan.NodeEvict pl) k) v)"
      using Cons.prems(2)[of k v] entry by simp
  qed
  moreover have
    "evaluateNodes fit' snap' pl' rest r = evaluateNodes fit snap pl rest r" for r
  proof (rule Cons.IH)
    fix k v
    assume "(k, v) \<in> set rest"
    then show "GetNodeByID snap' k = GetNodeByID snap k \<and>
           AllocsByNode snap' k = AllocsByNode snap k \<and>
           Plan.NodeEvict pl' k = Plan.NodeEvict pl k"
      using Cons.prems(1)[of k v] by simp
  next
    fix k v node existing
    assume "(k, v) \<in> set rest" "GetNodeByID snap k = Inr node"
      "AllocsByNode snap k = Inr existing"
    then show "fit' node (proposed_allocs existing (index_map (Plan.NodeEvict pl) k) v) =
           fit node (proposed_allocs existing (index_map (Plan.NodeEvict pl) k) v)"
      using Cons.prems(2)[of k v node existing] by simp
  qed
  ultimately show ?case by (simp add: entry split: loop_step.splits)
qed

lemma proposed_allocs_index_map:
  "proposed_allocs existing (index_map (Plan.NodeEvict pl) n) (index_map (Plan.NodeAllocation pl) n) =
     proposed_set_spec pl n existing"
  by (simp add: proposed_allocs_def proposed_set_spec_def RemoveAllocs_def Let_def)

lemma node_fits_spec:
  "node_fits fit snap pl n =
     (\<exists>node existing. GetNodeByID snap n = Inr node \<and> AllocsByNode snap n = Inr existing \<and>
                      fit node (proposed_set_spec pl n existing))"
  by (auto simp: node_fits_def proposed_allocs_index_map split: sum.splits)

lemma evaluateNode_proposed_set:
  assumes "GetNodeByID snap n = Inr node" and "AllocsByNode snap n = Inr existing"
    and "Plan.NodeAllocation pl n = Some allocList"
  shows "evaluateNode fit snap pl (n, allocList) result =
        (if fit node (proposed_set_spec pl n existing)
         then Continue (add_to_result n (index_map (Plan.NodeEvict pl) n) allocList result)
         else (case GetIndex snap ''allocs'' of
                 Inl err \<Rightarrow> Return (None, Some err)
               | Inr allocIndex \<Rightarrow>
                  (case GetIndex snap ''node'' of
                     Inl err \<Rightarrow> Return (None, Some err)
                   | Inr nodeIndex \<Rightarrow>
                      if AllAtOnce pl
                      then Return (Some (result\<lparr>RefreshIndex := maxUint64 nodeIndex allocIndex\<rparr>),
                                   None)
                      else Continue (result\<lparr>RefreshIndex := maxUint64 nodeIndex allocIndex\<rparr>))))"
  using assms proposed_allocs_spec[OF assms(3), of existing]
  by (simp add: evaluateNode_def Let_def split: sum.splits)

lemma evaluatePlan_fit_cong:
  assumes "Snapshot s' = Snapshot s"
    and "\<forall>snap n node existing.
        Snapshot s st = Inr snap \<and> n \<in> dom (Plan.NodeAllocation pl) \<and>
        GetNodeByID snap n = Inr node \<and> AllocsByNode snap n = Inr existing \<longrightarrow>
          AllocationsFit s' node (proposed_set_spec pl n existing) =
          AllocationsFit s node (proposed_set_spec pl n existing)"
  shows "evaluatePlan s' st pl order = evaluatePlan s st pl order"
proof (cases "Snapshot s st")
  case (Inl err)
  with assms(1) show ?thesis by (simp add: evaluatePlan_def)
next
  case (Inr snap)
  have "evaluateNodes (AllocationsFit s') snap pl (range_map (Plan.NodeAllocation pl) order)
          new_result =
        evaluateNodes (AllocationsFit s) snap pl (range_map (Plan.NodeAllocation pl) order)
          new_result"
  proof (rule evaluateNodes_cong[OF refl refl])
    fix k v node existing
    assume kv: "(k, v) \<in> set (range_map (Plan.NodeAllocation pl) order)"
      and rd: "GetNodeByID snap k = Inr node" "AllocsByNode snap k = Inr existing"
    from range_map_entry[OF kv] have pk: "Plan.NodeAllocation pl k = Some v" by simp
    then have "k \<in> dom (Plan.NodeAllocation pl)" by blast
    with assms(2) Inr rd have "AllocationsFit s' node (proposed_set_spec pl k existing) =
        AllocationsFit s node (proposed_set_spec pl k existing)" by blast
    then show "AllocationsFit s' node (proposed_allocs existing (index_map (Plan.NodeEvict pl) k) v) =
            AllocationsFit s node (proposed_allocs existing (index_map (Plan.NodeEvict pl) k) v)"
      by (simp add: proposed_allocs_spec[OF pk])
  qed simp
  with assms(1) Inr show ?thesis
    by (simp add: evaluatePlan_def)
qed

lemma evaluatePlan_recorded_iff_fit:
  assumes "Snapshot s st = Inr snap" and "evaluatePlan s st pl order = (Some r, e)"
  shows "(\<forall>m \<in> dom (PlanResult.NodeEvict r) \<union> dom (PlanResult.NodeAllocation r).
            \<exists>node existing. GetNodeByID snap m = Inr node \<and> AllocsByNode snap m = Inr existing \<and>
               AllocationsFit s node (proposed_set_spec pl m existing)) \<and>
         (\<not> AllAtOnce pl \<longrightarrow>
            (\<forall>m \<in> set order \<inter> dom (Plan.NodeAllocation pl).
               (\<exists>node existing. GetNodeByID snap m = Inr node \<and>
                   AllocsByNode snap m = Inr existing \<and>
                   AllocationsFit s node (proposed_set_spec pl m existing)) \<longrightarrow>
               index_map (PlanResult.NodeAllocation r) m = index_map (Plan.NodeAllocation pl) m \<and>
               index_map (PlanResult.NodeEvict r) m = index_map (Plan.NodeEvict pl) m))"
proof (intro conjI ballI impI)
  fix m
  assume "m \<in> dom (PlanResult.NodeEvict r) \<union> dom (PlanResult.NodeAllocation r)"
  from evaluatePlan_recorded_fits[OF assms this]
  show "\<exists>node existing. GetNodeByID snap m = Inr node \<and> AllocsByNode snap m = Inr existing \<and>
               AllocationsFit s node (proposed_set_spec pl m existing)"
    by (simp add: node_fits_spec)
next
  fix m
  assume na: "\<not> AllAtOnce pl" and m: "m \<in> set order \<inter> dom (Plan.NodeAllocation pl)"
    and "\<exists>node existing. GetNodeByID snap m = Inr node \<and>
                   AllocsByNode snap m = Inr existing \<and>
                   AllocationsFit s node (proposed_set_spec pl m existing)"
  then have "node_fits (AllocationsFit s) snap pl m"
    by (simp add: node_fits_spec)
  from evaluatePlan_fit_recorded[OF assms na m this]
  show "index_map (PlanResult.NodeAllocation r) m = index_map (Plan.NodeAllocation pl) m"
    and "index_map (PlanResult.NodeEvict r) m = index_map (Plan.NodeEvict pl) m"
    by simp_all
qed

text \<open>
  C5. For every node \<open>n\<close> that the loop visits, the allocations passed to
  \<^verbatim>\<open>AllocationsFit\<close> are the proposed set of the specification: the existing allocations
  of \<open>n\<close>, without those whose IDs are in \<^verbatim>\<open>plan.NodeEvict[n]\<close> when that list is
  non-empty, followed by \<^verbatim>\<open>plan.NodeAllocation[n]\<close>. The fit predicate is arbitrary, so what
  the code does with its answer tells which argument it was asked about. First, for
  every fit predicate the body of the loop adds the node to the result exactly when the
  predicate holds of the node and that set, and otherwise takes the refresh branch of
  lines 88 to 107. Second, the whole evaluation depends on the predicate only through its
  values on the nodes of the plan and their proposed sets. Third, every node recorded in
  the result of an evaluation is one for which the predicate holds of that set, and when
  the plan is not all-at-once every visited node for which it holds is recorded whole.
\<close>

theorem evaluatePlan_proposed_set:
  "(GetNodeByID snap n = Inr node \<and> AllocsByNode snap n = Inr existing \<and>
    Plan.NodeAllocation pl n = Some allocList \<longrightarrow>
      evaluateNode fit snap pl (n, allocList) result =
        (if fit node (proposed_set_spec pl n existing)
         then Continue (add_to_result n (index_map (Plan.NodeEvict pl) n) allocList result)
         else (case GetIndex snap ''allocs'' of
                 Inl err \<Rightarrow> Return (None, Some err)
               | Inr allocIndex \<Rightarrow>
                  (case GetIndex snap ''node'' of
                     Inl err \<Rightarrow> Return (None, Some err)
                   | Inr nodeIndex \<Rightarrow>
                      if AllAtOnce pl
                      then Return (Some (result\<lparr>RefreshIndex := maxUint64 nodeIndex allocIndex\<rparr>),
                                   None)
                      else Continue (result\<lparr>RefreshIndex := maxUint64 nodeIndex allocIndex\<rparr>))))) \<and>
   (Snapshot s' = Snapshot s \<and>
    (\<forall>snap n node existing.
        Snapshot s st = Inr snap \<and> n \<in> dom (Plan.NodeAllocation pl) \<and>
        GetNodeByID snap n = Inr node \<and> AllocsByNode snap n = Inr existing \<longrightarrow>
          AllocationsFit s' node (proposed_set_spec pl n existing) =
          AllocationsFit s node (proposed_set_spec pl n existing)) \<longrightarrow>
      evaluatePlan s' st pl order = evaluatePlan s st pl order) \<and>
   (Snapshot s st = Inr snap \<and> evaluatePlan s st pl order = (Some r, e) \<longrightarrow>
      (\<forall>m \<in> dom (PlanResult.NodeEvict r) \<union> dom (PlanResult.NodeAllocation r).
          \<exists>node existing. GetNodeByID snap m = Inr node \<and> AllocsByNode snap m = Inr existing \<and>
             AllocationsFit s node (proposed_set_spec pl m existing)) \<and>
      (\<not> AllAtOnce pl \<longrightarrow>
          (\<forall>m \<in> set order \<inter> dom (Plan.NodeAllocation pl).
             (\<exists>node existing. GetNodeByID snap m = Inr node \<and>
                 AllocsByNode snap m = Inr existing \<and>
                 AllocationsFit s node (proposed_set_spec pl m existing)) \<longrightarrow>
             index_map (PlanResult.NodeAllocation r) m = index_map (Plan.NodeAllocation pl) m \<and>
             index_map (PlanResult.NodeEvict r) m = index_map (Plan.NodeEvict pl) m)))"
proof (intro conjI)
  show "GetNodeByID snap n = Inr node \<and> AllocsByNode snap n = Inr existing \<and>
    Plan.NodeAllocation pl n = Some allocList \<longrightarrow>
      evaluateNode fit snap pl (n, allocList) result =
        (if fit node (proposed_set_spec pl n existing)
         then Continue (add_to_result n (index_map (Plan.NodeEvict pl) n) allocList result)
         else (case GetIndex snap ''allocs'' of
                 Inl err \<Rightarrow> Return (None, Some err)
               | Inr allocIndex \<Rightarrow>
                  (case GetIndex snap ''node'' of
                     Inl err \<Rightarrow> Return (None, Some err)
                   | Inr nodeIndex \<Rightarrow>
                      if AllAtOnce pl
                      then Return (Some (result\<lparr>RefreshIndex := maxUint64 nodeIndex allocIndex\<rparr>),
                                   None)
                      else Continue (result\<lparr>RefreshIndex := maxUint64 nodeIndex allocIndex\<rparr>))))"
    using evaluateNode_proposed_set[of snap n node existing pl allocList fit result] by blast
next
  show "Snapshot s' = Snapshot s \<and>
    (\<forall>snap n node existing.
        Snapshot s st = Inr snap \<and> n \<in> dom (Plan.NodeAllocation pl) \<and>
        GetNodeByID snap n = Inr node \<and> AllocsByNode snap n = Inr existing \<longrightarrow>
          AllocationsFit s' node (proposed_set_spec pl n existing) =
          AllocationsFit s node (proposed_set_spec pl n existing)) \<longrightarrow>
      evaluatePlan s' st pl order = evaluatePlan s st pl order"
    using evaluatePlan_fit_cong[of s' s st pl order] by blast
next
  show "Snapshot s st = Inr snap \<and> evaluatePlan s st pl order = (Some r, e) \<longrightarrow>
      (\<forall>m \<in> dom (PlanResult.NodeEvict r) \<union> dom (PlanResult.NodeAllocation r).
          \<exists>node existing. GetNodeByID snap m = Inr node \<and> AllocsByNode snap m = Inr existing \<and>
             AllocationsFit s node (proposed_set_spec pl m existing)) \<and>
      (\<not> AllAtOnce pl \<longrightarrow>
          (\<forall>m \<in> set order \<inter> dom (Plan.NodeAllocation pl).
             (\<exists>node existing. GetNodeByID snap m = Inr node \<and>
                 AllocsByNode snap m = Inr existing \<and>
                 AllocationsFit s node (proposed_set_spec pl m existing)) \<longrightarrow>
             index_map (PlanResult.NodeAllocation r) m = index_map (Plan.NodeAllocation pl) m \<and>
             index_map (PlanResult.NodeEvict r) m = index_map (Plan.NodeEvict pl) m))"
    using evaluatePlan_recorded_iff_fit[of s st snap pl order r e] by (intro impI) (elim conjE)
qed

theorem evaluatePlan_proposed_set_witness:
  "(GetNodeByID cluster ''B'' = Inr 1 \<and> AllocsByNode cluster ''B'' = Inr [alloc ''b1''] \<and>
    Plan.NodeAllocation plan_partial ''B'' = Some [alloc ''b2'']) \<and>
   proposed_set_spec plan_partial ''B'' [alloc ''b1''] = [alloc ''b1'', alloc ''b2''] \<and>
   \<not> AllocationsFit leader 1 (proposed_set_spec plan_partial ''B'' [alloc ''b1'']) \<and>
   evaluateNode (AllocationsFit leader) cluster plan_partial (''B'', [alloc ''b2'']) new_result =
     Continue (new_result\<lparr>RefreshIndex := 3\<rparr>) \<and>
   (GetNodeByID cluster ''B'' = Inr 1 \<and> AllocsByNode cluster ''B'' = Inr [alloc ''b1''] \<and>
    Plan.NodeAllocation plan_evict ''B'' = Some [alloc ''b3'']) \<and>
   proposed_set_spec plan_evict ''B'' [alloc ''b1''] = [alloc ''b3''] \<and>
   AllocationsFit leader 1 (proposed_set_spec plan_evict ''B'' [alloc ''b1'']) \<and>
   evaluateNode (AllocationsFit leader) cluster plan_evict (''B'', [alloc ''b3'']) new_result =
     Continue result_evict \<and>
   Snapshot leader_other_fit = Snapshot leader \<and>
   AllocationsFit leader_other_fit 5 [] \<noteq> AllocationsFit leader 5 [] \<and>
   evaluatePlan leader_other_fit 0 plan_partial [''A'', ''B''] =
     evaluatePlan leader 0 plan_partial [''A'', ''B''] \<and>
   (Snapshot leader 0 = Inr cluster \<and>
    evaluatePlan leader 0 plan_partial [''A'', ''B''] = (Some result_partial, None)) \<and>
   ''B'' \<notin> dom (PlanResult.NodeEvict result_partial) \<union>
           dom (PlanResult.NodeAllocation result_partial) \<and>
   (index_map (PlanResult.NodeAllocation result_partial) ''A'' =
      index_map (Plan.NodeAllocation plan_partial) ''A'' \<and>
    index_map (PlanResult.NodeEvict result_partial) ''A'' =
      index_map (Plan.NodeEvict plan_partial) ''A'')"
proof -
  note body = evaluatePlan_proposed_set[THEN conjunct1, THEN mp]
  note cong = evaluatePlan_proposed_set[THEN conjunct2, THEN conjunct1, THEN mp]
  note whole = evaluatePlan_proposed_set[THEN conjunct2, THEN conjunct2, THEN mp]
  have h1: "GetNodeByID cluster ''B'' = Inr 1 \<and> AllocsByNode cluster ''B'' = Inr [alloc ''b1''] \<and>
    Plan.NodeAllocation plan_partial ''B'' = Some [alloc ''b2'']"
    by (simp add: scenario_defs)
  have p1: "proposed_set_spec plan_partial ''B'' [alloc ''b1''] = [alloc ''b1'', alloc ''b2'']"
    by (simp add: proposed_set_spec_def index_map_def scenario_defs)
  have nf: "\<not> AllocationsFit leader 1 (proposed_set_spec plan_partial ''B'' [alloc ''b1''])"
    by (simp add: p1) (simp add: leader_def)
  note b1 = trans[OF body[OF h1, of "AllocationsFit leader" new_result] if_not_P[OF nf]]
  have c1: "evaluateNode (AllocationsFit leader) cluster plan_partial (''B'', [alloc ''b2''])
              new_result = Continue (new_result\<lparr>RefreshIndex := 3\<rparr>)"
    unfolding b1 by (simp add: cluster_def plan_partial_def maxUint64_def)
  have h2: "GetNodeByID cluster ''B'' = Inr 1 \<and> AllocsByNode cluster ''B'' = Inr [alloc ''b1''] \<and>
    Plan.NodeAllocation plan_evict ''B'' = Some [alloc ''b3'']"
    by (simp add: scenario_defs)
  have p2: "proposed_set_spec plan_evict ''B'' [alloc ''b1''] = [alloc ''b3'']"
    by (simp add: proposed_set_spec_def index_map_def scenario_defs)
  have f: "AllocationsFit leader 1 (proposed_set_spec plan_evict ''B'' [alloc ''b1''])"
    by (simp add: p2) (simp add: leader_def)
  note b2 = trans[OF body[OF h2, of "AllocationsFit leader" new_result] if_P[OF f]]
  have c2: "evaluateNode (AllocationsFit leader) cluster plan_evict (''B'', [alloc ''b3''])
              new_result = Continue result_evict"
    unfolding b2
    by (simp add: add_to_result_def index_map_def new_result_def result_evict_def plan_evict_def)
  have sn: "Snapshot leader_other_fit = Snapshot leader"
    by (simp add: scenario_defs)
  have df: "AllocationsFit leader_other_fit 5 [] \<noteq> AllocationsFit leader 5 []"
    by (simp add: scenario_defs)
  have ag: "\<forall>snap n node existing.
        Snapshot leader 0 = Inr snap \<and> n \<in> dom (Plan.NodeAllocation plan_partial) \<and>
        GetNodeByID snap n = Inr node \<and> AllocsByNode snap n = Inr existing \<longrightarrow>
          AllocationsFit leader_other_fit node (proposed_set_spec plan_partial n existing) =
          AllocationsFit leader node (proposed_set_spec plan_partial n existing)"
    by (auto simp: scenario_defs)
  note c3 = cong[OF conjI[OF sn ag], of "[''A'', ''B'']"]
  have run: "Snapshot leader 0 = Inr cluster \<and>
    evaluatePlan leader 0 plan_partial [''A'', ''B''] = (Some result_partial, None)"
    by (simp add: scenario_defs result_defs evaluate_defs)
  note w = whole[OF run]
  have nfB: "\<not> (\<exists>node existing. GetNodeByID cluster ''B'' = Inr node \<and>
               AllocsByNode cluster ''B'' = Inr existing \<and>
               AllocationsFit leader node (proposed_set_spec plan_partial ''B'' existing))"
    using nf h1 by simp
  have c4: "''B'' \<notin> dom (PlanResult.NodeEvict result_partial) \<union>
                  dom (PlanResult.NodeAllocation result_partial)"
  proof
    assume "''B'' \<in> dom (PlanResult.NodeEvict result_partial) \<union>
                  dom (PlanResult.NodeAllocation result_partial)"
    from nfB bspec[OF w[THEN conjunct1] this] show False by (rule notE)
  qed
  have na: "\<not> AllAtOnce plan_partial"
    by (simp add: plan_partial_def)
  have inA: "''A'' \<in> set [''A'', ''B''] \<inter> dom (Plan.NodeAllocation plan_partial)"
    by (simp add: plan_partial_def)
  have fA: "\<exists>node existing. GetNodeByID cluster ''A'' = Inr node \<and>
               AllocsByNode cluster ''A'' = Inr existing \<and>
               AllocationsFit leader node (proposed_set_spec plan_partial ''A'' existing)"
    by (simp add: proposed_set_spec_def index_map_def scenario_defs)
  note c5 = bspec[OF w[THEN conjunct2, THEN mp, OF na] inA, THEN mp, OF fA]
  show ?thesis
    by (rule conjI[OF h1 conjI[OF p1 conjI[OF nf conjI[OF c1 conjI[OF h2 conjI[OF p2
          conjI[OF f conjI[OF c2 conjI[OF sn conjI[OF df conjI[OF c3 conjI[OF run
          conjI[OF c4 c5]]]]]]]]]]]]])
qed

text \<open>
  C6. A node that is a key of \<^verbatim>\<open>plan.NodeEvict\<close> but not of \<^verbatim>\<open>plan.NodeAllocation\<close> is
  never visited by \<^verbatim>\<open>evaluatePlan\<close>: it is in neither map of the result; its node record
  and its existing allocations are never read, so that changing what the snapshot
  answers for it changes nothing; and its evictions are dropped without a trace, the
  outcome being that of the plan without them.
\<close>

theorem evaluatePlan_evict_only_node:
  assumes "n \<in> dom (Plan.NodeEvict pl)" and "n \<notin> dom (Plan.NodeAllocation pl)"
  shows "(\<forall>r e. evaluatePlan s st pl order = (Some r, e) \<longrightarrow>
            PlanResult.NodeEvict r n = None \<and> PlanResult.NodeAllocation r n = None) \<and>
         (\<forall>s' snap snap'.
            Snapshot s st = Inr snap \<and> Snapshot s' st = Inr snap' \<and>
            AllocationsFit s' = AllocationsFit s \<and> GetIndex snap' = GetIndex snap \<and>
            (\<forall>k. k \<noteq> n \<longrightarrow> GetNodeByID snap' k = GetNodeByID snap k \<and>
                            AllocsByNode snap' k = AllocsByNode snap k) \<longrightarrow>
            evaluatePlan s' st pl order = evaluatePlan s st pl order) \<and>
         evaluatePlan s st (pl\<lparr>Plan.NodeEvict := (Plan.NodeEvict pl)(n := None)\<rparr>) order =
           evaluatePlan s st pl order"
proof -
  have absent: "PlanResult.NodeEvict r n = None \<and> PlanResult.NodeAllocation r n = None"
    if run: "evaluatePlan s st pl order = (Some r, e)" for r e
  proof (cases "Snapshot s st")
    case (Inl err)
    with run show ?thesis by (simp add: evaluatePlan_def)
  next
    case (Inr snap)
    from evaluatePlan_accepted_ok[OF Inr run] assms(2) show ?thesis
      unfolding accepted_ok_def by blast
  qed
  have unread: "evaluatePlan s' st pl order = evaluatePlan s st pl order"
    if a: "Snapshot s st = Inr snap \<and> Snapshot s' st = Inr snap' \<and>
            AllocationsFit s' = AllocationsFit s \<and> GetIndex snap' = GetIndex snap \<and>
            (\<forall>k. k \<noteq> n \<longrightarrow> GetNodeByID snap' k = GetNodeByID snap k \<and>
                            AllocsByNode snap' k = AllocsByNode snap k)"
    for s' :: "('a, 'b) Server" and snap snap'
  proof -
  have "evaluateNodes (AllocationsFit s) snap' pl (range_map (Plan.NodeAllocation pl) order)
          new_result =
        evaluateNodes (AllocationsFit s) snap pl (range_map (Plan.NodeAllocation pl) order)
          new_result"
  proof (rule evaluateNodes_cong[OF _ refl])
    show "GetIndex snap' = GetIndex snap" using a by simp
  next
    fix k v
    assume "(k, v) \<in> set (range_map (Plan.NodeAllocation pl) order)"
    from range_map_entry[OF this] assms(2) have "k \<noteq> n" by auto
    with a show "GetNodeByID snap' k = GetNodeByID snap k \<and>
           AllocsByNode snap' k = AllocsByNode snap k \<and>
           Plan.NodeEvict pl k = Plan.NodeEvict pl k" by simp
  qed simp
  with a show "evaluatePlan s' st pl order = evaluatePlan s st pl order"
    by (simp add: evaluatePlan_def)
  qed
  let ?pl' = "pl\<lparr>Plan.NodeEvict := (Plan.NodeEvict pl)(n := None)\<rparr>"
  have dropped: "evaluatePlan s st ?pl' order = evaluatePlan s st pl order"
  proof (cases "Snapshot s st")
    case (Inl err)
    then show ?thesis by (simp add: evaluatePlan_def)
  next
    case (Inr snap)
    have "evaluateNodes (AllocationsFit s) snap ?pl' (range_map (Plan.NodeAllocation pl) order)
            new_result =
          evaluateNodes (AllocationsFit s) snap pl (range_map (Plan.NodeAllocation pl) order)
            new_result"
    proof (rule evaluateNodes_cong[OF refl])
      show "AllAtOnce ?pl' = AllAtOnce pl" by simp
    next
      fix k v
      assume "(k, v) \<in> set (range_map (Plan.NodeAllocation pl) order)"
      from range_map_entry[OF this] assms(2) have "k \<noteq> n" by auto
      then show "GetNodeByID snap k = GetNodeByID snap k \<and>
           AllocsByNode snap k = AllocsByNode snap k \<and>
           Plan.NodeEvict ?pl' k = Plan.NodeEvict pl k" by simp
    qed simp
    with Inr show ?thesis
      by (simp add: evaluatePlan_def)
  qed
  from absent unread dropped show ?thesis by blast
qed

theorem evaluatePlan_evict_only_node_witness:
  "''B'' \<in> dom (Plan.NodeEvict plan_evict_only) \<and>
   ''B'' \<notin> dom (Plan.NodeAllocation plan_evict_only) \<and>
   evaluatePlan leader 0 plan_evict_only [''A''] = (Some result_evict_only, None) \<and>
   (PlanResult.NodeEvict result_evict_only ''B'' = None \<and>
    PlanResult.NodeAllocation result_evict_only ''B'' = None) \<and>
   GetNodeByID cluster_B_unreadable ''B'' \<noteq> GetNodeByID cluster ''B'' \<and>
   evaluatePlan leader_B_unreadable 0 plan_evict_only [''A''] =
     evaluatePlan leader 0 plan_evict_only [''A''] \<and>
   evaluatePlan leader 0
     (plan_evict_only\<lparr>Plan.NodeEvict := (Plan.NodeEvict plan_evict_only)(''B'' := None)\<rparr>) [''A''] =
     evaluatePlan leader 0 plan_evict_only [''A'']"
proof -
  have h1: "''B'' \<in> dom (Plan.NodeEvict plan_evict_only)"
    by (simp add: plan_evict_only_def)
  have h2: "''B'' \<notin> dom (Plan.NodeAllocation plan_evict_only)"
    by (simp add: plan_evict_only_def)
  note t = evaluatePlan_evict_only_node[OF h1 h2, of leader 0 "[''A'']"]
  have run: "evaluatePlan leader 0 plan_evict_only [''A''] = (Some result_evict_only, None)"
    by (simp add: scenario_defs result_defs evaluate_defs)
  from t[THEN conjunct1, THEN spec, THEN spec, THEN mp, OF run]
  have c1: "PlanResult.NodeEvict result_evict_only ''B'' = None \<and>
            PlanResult.NodeAllocation result_evict_only ''B'' = None" .
  have df: "GetNodeByID cluster_B_unreadable ''B'' \<noteq> GetNodeByID cluster ''B''"
    by (simp add: scenario_defs)
  have sn: "Snapshot leader 0 = Inr cluster \<and>
            Snapshot leader_B_unreadable 0 = Inr cluster_B_unreadable \<and>
            AllocationsFit leader_B_unreadable = AllocationsFit leader \<and>
            GetIndex cluster_B_unreadable = GetIndex cluster \<and>
            (\<forall>k. k \<noteq> ''B'' \<longrightarrow> GetNodeByID cluster_B_unreadable k = GetNodeByID cluster k \<and>
                            AllocsByNode cluster_B_unreadable k = AllocsByNode cluster k)"
    by (simp add: scenario_defs)
  from t[THEN conjunct2, THEN conjunct1, THEN spec, THEN spec, THEN spec, THEN mp, OF sn]
  have c2: "evaluatePlan leader_B_unreadable 0 plan_evict_only [''A''] =
              evaluatePlan leader 0 plan_evict_only [''A'']" .
  note c3 = t[THEN conjunct2, THEN conjunct2]
  show ?thesis
    by (rule conjI[OF h1 conjI[OF h2 conjI[OF run conjI[OF c1 conjI[OF df conjI[OF c2 c3]]]]]])
qed

section \<open>The two defects of the refresh branch\<close>

text \<open>
  C1 does not hold of the code. The plan is all-at-once; A is visited first and fits,
  B does not fit. Line 103 returns the result holder as it is, with the placement on A
  that lines 114 to 116 recorded before: the result is not empty.
\<close>

theorem evaluatePlan_all_at_once_keeps_accepted:
  "AllAtOnce plan_all_at_once \<and>
   range_order (Plan.NodeAllocation plan_all_at_once) [''A'', ''B''] \<and>
   \<not> node_fits (AllocationsFit leader) cluster plan_all_at_once ''B'' \<and>
   evaluatePlan leader 0 plan_all_at_once [''A'', ''B''] = (Some result_partial, None) \<and>
   PlanResult.NodeAllocation result_partial ''A'' = Some [alloc ''a1'']"
  by (simp add: scenario_defs result_defs evaluate_defs range_order_def insert_commute)

text \<open>
  C2 does not hold of the code. Node B does not fit; the index of table "nodes" is 7
  and that of "allocs" is 3, so the claim gives \<^verbatim>\<open>RefreshIndex\<close> 7. Line 94 asks for the
  index of a table named "node", which the store answers with 0, and the result has
  \<^verbatim>\<open>RefreshIndex\<close> 3.
\<close>

theorem evaluatePlan_refresh_index_reads_node:
  "GetIndex cluster ''nodes'' = Inr 7 \<and> GetIndex cluster ''allocs'' = Inr 3 \<and>
   GetIndex cluster ''node'' = Inr 0 \<and>
   \<not> node_fits (AllocationsFit leader) cluster plan_partial ''B'' \<and>
   evaluatePlan leader 0 plan_partial [''A'', ''B''] = (Some result_partial, None) \<and>
   RefreshIndex result_partial = 3"
  by (simp add: scenario_defs result_defs evaluate_defs)

section \<open>The applier loop\<close>

lemma evaluatePlan_AllocIndex:
  "evaluatePlan s st pl order = (Some r, e) \<Longrightarrow> AllocIndex r = 0"
  by (cases "Snapshot s st")
     (auto simp: evaluatePlan_def new_result_def dest: evaluateNodes_AllocIndex)

lemma responses_append: "responses (xs @ ys) = responses xs @ responses ys"
  by (induction xs rule: responses.induct) simp_all

lemma applyPlan_events:
  "\<exists>st' req index err. applyPlan s result ord w =
       ((index, err), \<lparr>state = st', events = events w @ [RaftApply req index err]\<rparr>)"
  by (simp add: applyPlan_def Let_def split: prod.splits)

lemma planApplyOnce_response:
  "\<exists>w' new result err.
     planApplyOnce s pending ord w = Some w' \<and> events w' = events w @ new \<and>
     responses new = [(pending, result, err)] \<and>
     (\<forall>e. snd (evaluatePlan s (state w) (plan pending) (planOrder ord)) = Some e \<longrightarrow>
          new = [Respond pending None (Some e)]) \<and>
     (\<forall>req index e. RaftApply req index (Some e) \<in> set new \<longrightarrow>
          result = None \<and> err = Some e) \<and>
     (\<forall>req index. RaftApply req index None \<in> set new \<longrightarrow>
          (\<exists>r. fst (evaluatePlan s (state w) (plan pending) (planOrder ord)) = Some r \<and>
               result = Some (r\<lparr>AllocIndex := index\<rparr>)) \<and> err = None) \<and>
     (snd (evaluatePlan s (state w) (plan pending) (planOrder ord)) = None \<and>
      (\<forall>req index e. RaftApply req index e \<notin> set new) \<longrightarrow>
          (\<exists>r. result = Some r) \<and>
          result = fst (evaluatePlan s (state w) (plan pending) (planOrder ord)) \<and>
          err = None)"
proof (cases rule: evaluatePlan_outcomes[of s "state w" "plan pending" "planOrder ord"])
  case (failed e)
  then show ?thesis
    by (simp add: planApplyOnce_def respond_def)
next
  case (evaluated r)
  show ?thesis
  proof (cases "PlanResult.NodeEvict r \<noteq> Map.empty \<or> PlanResult.NodeAllocation r \<noteq> Map.empty")
    case False
    with evaluated show ?thesis
      by (simp add: planApplyOnce_def respond_def)
  next
    case True
    from applyPlan_events[of s r ord w] obtain st' req index err where
      ap: "applyPlan s r ord w =
             ((index, err), \<lparr>state = st', events = events w @ [RaftApply req index err]\<rparr>)"
      by blast
    show ?thesis
    proof (cases err)
      case None
      with evaluated True ap show ?thesis
        by (auto simp: planApplyOnce_def respond_def)
    next
      case (Some e)
      with evaluated True ap show ?thesis
        by (auto simp: planApplyOnce_def respond_def)
    qed
  qed
qed

lemma planApply_responses:
  "\<exists>w'. planApply s queue w = Some w' \<and>
        map fst (responses (events w')) = map fst (responses (events w)) @ map fst queue"
proof (induction queue arbitrary: w)
  case Nil
  then show ?case by simp
next
  case (Cons item queue)
  obtain pending ord where item: "item = (pending, ord)" by (cases item)
  from planApplyOnce_response[of s pending ord w] obtain w1 new result err where
    w1: "planApplyOnce s pending ord w = Some w1" "events w1 = events w @ new"
      "responses new = [(pending, result, err)]"
    by blast
  then have "map fst (responses (events w1)) = map fst (responses (events w)) @ [pending]"
    by (simp add: responses_append)
  moreover from Cons.IH[of w1] obtain w' where
    "planApply s queue w1 = Some w'"
    "map fst (responses (events w')) = map fst (responses (events w1)) @ map fst queue"
    by blast
  ultimately show ?case using w1(1) item by simp
qed

text \<open>
  C8. Every pending plan that the applier loop dequeues gets exactly one call of
  \<^verbatim>\<open>respond\<close> in its pass through the loop: \<^verbatim>\<open>respond(nil, err)\<close> on its own when the
  evaluation fails, \<^verbatim>\<open>respond(nil, err)\<close> when \<^verbatim>\<open>raftApply\<close> fails, and
  \<^verbatim>\<open>respond(result, nil)\<close> otherwise, with the index of the log entry when one was
  written. Over the whole loop the responses are those to the dequeued plans, one each
  and in order.
\<close>

theorem planApply_one_response:
  "(\<exists>w' new result err.
     planApplyOnce s pending ord w = Some w' \<and> events w' = events w @ new \<and>
     responses new = [(pending, result, err)] \<and>
     (\<forall>e. snd (evaluatePlan s (state w) (plan pending) (planOrder ord)) = Some e \<longrightarrow>
          new = [Respond pending None (Some e)]) \<and>
     (\<forall>req index e. RaftApply req index (Some e) \<in> set new \<longrightarrow>
          result = None \<and> err = Some e) \<and>
     (\<forall>req index. RaftApply req index None \<in> set new \<longrightarrow>
          (\<exists>r. fst (evaluatePlan s (state w) (plan pending) (planOrder ord)) = Some r \<and>
               result = Some (r\<lparr>AllocIndex := index\<rparr>)) \<and> err = None) \<and>
     (snd (evaluatePlan s (state w) (plan pending) (planOrder ord)) = None \<and>
      (\<forall>req index e. RaftApply req index e \<notin> set new) \<longrightarrow>
          (\<exists>r. result = Some r) \<and>
          result = fst (evaluatePlan s (state w) (plan pending) (planOrder ord)) \<and>
          err = None)) \<and>
   (\<exists>w'. planApply s queue w = Some w' \<and>
         map fst (responses (events w')) = map fst (responses (events w)) @ map fst queue)"
  by (rule conjI[OF planApplyOnce_response planApply_responses])

theorem planApply_one_response_witness:
  "planApplyOnce leader pending_partial orders_AB world0 =
     Some \<lparr>state = 1,
           events = [RaftApply \<lparr>Evict = [], Alloc = [alloc ''a1'']\<rparr> 1 None,
                     Respond pending_partial (Some (result_partial\<lparr>AllocIndex := 1\<rparr>)) None]\<rparr> \<and>
   (\<exists>r. fst (evaluatePlan leader (state world0) (plan pending_partial) (planOrder orders_AB))
          = Some r \<and>
        responses [RaftApply \<lparr>Evict = [], Alloc = [alloc ''a1'']\<rparr> 1 None,
                   Respond pending_partial (Some (result_partial\<lparr>AllocIndex := 1\<rparr>)) None]
          = [(pending_partial, Some (r\<lparr>AllocIndex := 1\<rparr>), None)]) \<and>
   (\<exists>w'. planApply leader [(pending_partial, orders_AB), (pending_all_at_once, orders_BA)] world0
           = Some w' \<and>
         map fst (responses (events w')) = [pending_partial, pending_all_at_once])"
proof -
  let ?new = "[RaftApply \<lparr>Evict = [], Alloc = [alloc ''a1'']\<rparr> 1 None,
               Respond pending_partial (Some (result_partial\<lparr>AllocIndex := 1\<rparr>)) None]"
  note t = planApply_one_response[of leader pending_partial orders_AB world0
      "[(pending_partial, orders_AB), (pending_all_at_once, orders_BA)]"]
  have ev: "planApplyOnce leader pending_partial orders_AB world0 =
              Some \<lparr>state = 1, events = ?new\<rparr>"
    by (simp add: planApplyOnce_def applyPlan_def respond_def scenario_defs result_defs
        evaluate_defs)
  from t[THEN conjunct1] obtain w' new result err where
    w': "planApplyOnce leader pending_partial orders_AB world0 = Some w'"
    and new: "events w' = events world0 @ new"
    and resp: "responses new = [(pending_partial, result, err)]"
    and applied: "\<forall>req index. RaftApply req index None \<in> set new \<longrightarrow>
          (\<exists>r. fst (evaluatePlan leader (state world0) (plan pending_partial)
                      (planOrder orders_AB)) = Some r \<and>
               result = Some (r\<lparr>AllocIndex := index\<rparr>)) \<and> err = None"
    by blast
  from ev w' have "w' = \<lparr>state = 1, events = ?new\<rparr>"
    by simp
  with new have n: "new = ?new"
    by (simp add: world0_def)
  then have "RaftApply \<lparr>Evict = [], Alloc = [alloc ''a1'']\<rparr> 1 None \<in> set new"
    by simp
  with applied obtain r where
    r: "fst (evaluatePlan leader (state world0) (plan pending_partial) (planOrder orders_AB))
          = Some r"
    and res: "result = Some (r\<lparr>AllocIndex := 1\<rparr>)" "err = None"
    by blast
  from resp n res have "responses ?new = [(pending_partial, Some (r\<lparr>AllocIndex := 1\<rparr>), None)]"
    by simp
  with r have c1: "\<exists>r. fst (evaluatePlan leader (state world0) (plan pending_partial)
                           (planOrder orders_AB)) = Some r \<and>
        responses ?new = [(pending_partial, Some (r\<lparr>AllocIndex := 1\<rparr>), None)]"
    by blast
  from t[THEN conjunct2]
  have c2: "\<exists>w'. planApply leader [(pending_partial, orders_AB), (pending_all_at_once, orders_BA)]
                   world0 = Some w' \<and>
         map fst (responses (events w')) = [pending_partial, pending_all_at_once]"
    by (simp add: world0_def)
  show ?thesis by (rule conjI[OF ev conjI[OF c1 c2]])
qed

text \<open>
  C9. For a dequeued plan whose evaluation succeeds with \<^verbatim>\<open>result.NodeEvict\<close> and
  \<^verbatim>\<open>result.NodeAllocation\<close> both empty, the pass through the loop calls no \<^verbatim>\<open>raftApply\<close>:
  its only event is \<^verbatim>\<open>respond(result, nil)\<close>, the replicated state is unchanged, and
  \<^verbatim>\<open>result.AllocIndex\<close> is 0.
\<close>

theorem planApply_nothing_to_apply:
  assumes "evaluatePlan s (state w) (plan pending) (planOrder ord) = (Some result, None)"
    and "PlanResult.NodeEvict result = Map.empty"
    and "PlanResult.NodeAllocation result = Map.empty"
  shows "planApplyOnce s pending ord w =
           Some (w\<lparr>events := events w @ [Respond pending (Some result) None]\<rparr>) \<and>
         AllocIndex result = 0"
  using assms evaluatePlan_AllocIndex[OF assms(1)]
  by (simp add: planApplyOnce_def respond_def)

theorem planApply_nothing_to_apply_witness:
  "evaluatePlan leader (state world0) (plan pending_all_at_once) (planOrder orders_BA) =
     (Some result_rejected, None) \<and>
   PlanResult.NodeEvict result_rejected = Map.empty \<and>
   PlanResult.NodeAllocation result_rejected = Map.empty \<and>
   planApplyOnce leader pending_all_at_once orders_BA world0 =
     Some (world0\<lparr>events := events world0 @
                     [Respond pending_all_at_once (Some result_rejected) None]\<rparr>) \<and>
   AllocIndex result_rejected = 0"
proof -
  have h1: "evaluatePlan leader (state world0) (plan pending_all_at_once) (planOrder orders_BA) =
     (Some result_rejected, None)"
    by (simp add: scenario_defs result_defs evaluate_defs)
  have h2: "PlanResult.NodeEvict result_rejected = Map.empty"
    by (simp add: result_rejected_def)
  have h3: "PlanResult.NodeAllocation result_rejected = Map.empty"
    by (simp add: result_rejected_def)
  note c = planApply_nothing_to_apply[OF h1 h2 h3]
  show ?thesis by (rule conjI[OF h1 conjI[OF h2 conjI[OF h3 c]]])
qed

end
